theory Spec2Isabelle
  imports Complex_Main "HOL-Library.Sublist"
begin

section \<open>JavaScript values used by the AI service\<close>

text \<open>
  A JavaScript string is a sequence of code units. It is modelled as a HOL \<open>string\<close>,
  one \<open>char\<close> per code unit, so the model covers the code units below 256 (ASCII and
  Latin-1); \<open>length\<close> is the string's \<open>length\<close> property.

  A value that may be \<open>null\<close> or \<open>undefined\<close> is an \<open>option\<close>, \<open>None\<close> being
  the absent value. \<open>truthy\<close> is JavaScript's truthiness on such a value: absent and the
  empty string are falsy.
\<close>

definition truthy :: "string option \<Rightarrow> bool" where
  "truthy t = (case t of None \<Rightarrow> False | Some s \<Rightarrow> s \<noteq> [])"

text \<open>\<open>a || b\<close> on strings.\<close>

definition or_else :: "string option \<Rightarrow> string \<Rightarrow> string" where
  "or_else t d = (case t of None \<Rightarrow> d | Some s \<Rightarrow> if s = [] then d else s)"

text \<open>
  A JavaScript number is an IEEE 754 double. A finite double is modelled by the real
  number it stands for, and the three values that are not finite stand apart. The sign
  of a zero is not modelled.

  \<open>rnd\<close> rounds a real number to the nearest double, a tie going to the double with an
  even significand: \<open>binade\<close> is the exponent of the number, held at -1022 from below
  where the subnormal numbers start, \<open>quantum\<close> is the gap between neighbouring doubles
  there, and a result of magnitude \<open>2^1024\<close> is an infinity.
\<close>

datatype jsnum = Num real | NaN | Infinity | NegInfinity

definition round_half_even :: "real \<Rightarrow> int" where
  "round_half_even y =
     (let f = \<lfloor>y\<rfloor>; d = y - of_int f
      in if d < 1 / 2 then f else if 1 / 2 < d then f + 1 else if even f then f else f + 1)"

definition binade :: "real \<Rightarrow> int" where
  "binade x = max \<lfloor>log 2 \<bar>x\<bar>\<rfloor> (- 1022)"

definition quantum :: "real \<Rightarrow> real" where
  "quantum x = 2 powr of_int (binade x - 52)"

definition rnd :: "real \<Rightarrow> jsnum" where
  "rnd x =
     (if x = 0 then Num 0
      else
        (let y = of_int (round_half_even (x / quantum x)) * quantum x
         in if 2 ^ 1024 \<le> y then Infinity
            else if y \<le> - (2 ^ 1024) then NegInfinity
            else Num y))"

text \<open>
  The arithmetic of doubles: the exact result of two finite operands is rounded, and the
  other cases follow IEEE 754. \<open>Math.sqrt\<close> is taken to round correctly, as the
  square root of the hardware does.
\<close>

definition fadd :: "jsnum \<Rightarrow> jsnum \<Rightarrow> jsnum" where
  "fadd x y =
     (case (x, y) of
        (Num a, Num b) \<Rightarrow> rnd (a + b)
      | (NaN, _) \<Rightarrow> NaN
      | (_, NaN) \<Rightarrow> NaN
      | (Infinity, NegInfinity) \<Rightarrow> NaN
      | (NegInfinity, Infinity) \<Rightarrow> NaN
      | (Infinity, _) \<Rightarrow> Infinity
      | (NegInfinity, _) \<Rightarrow> NegInfinity
      | (Num a, Infinity) \<Rightarrow> Infinity
      | (Num a, NegInfinity) \<Rightarrow> NegInfinity)"

definition fmul :: "jsnum \<Rightarrow> jsnum \<Rightarrow> jsnum" where
  "fmul x y =
     (case (x, y) of
        (Num a, Num b) \<Rightarrow> rnd (a * b)
      | (NaN, _) \<Rightarrow> NaN
      | (_, NaN) \<Rightarrow> NaN
      | (Num a, Infinity) \<Rightarrow> if a = 0 then NaN else if 0 < a then Infinity else NegInfinity
      | (Num a, NegInfinity) \<Rightarrow> if a = 0 then NaN else if 0 < a then NegInfinity else Infinity
      | (Infinity, Num b) \<Rightarrow> if b = 0 then NaN else if 0 < b then Infinity else NegInfinity
      | (NegInfinity, Num b) \<Rightarrow> if b = 0 then NaN else if 0 < b then NegInfinity else Infinity
      | (Infinity, Infinity) \<Rightarrow> Infinity
      | (NegInfinity, NegInfinity) \<Rightarrow> Infinity
      | (Infinity, NegInfinity) \<Rightarrow> NegInfinity
      | (NegInfinity, Infinity) \<Rightarrow> NegInfinity)"

text \<open>
  Division. A zero divisor is taken as the positive zero: the one division of the
  service divides by a product of two square roots, which is never the negative zero.
\<close>

definition fdiv :: "jsnum \<Rightarrow> jsnum \<Rightarrow> jsnum" where
  "fdiv x y =
     (case (x, y) of
        (NaN, _) \<Rightarrow> NaN
      | (_, NaN) \<Rightarrow> NaN
      | (Num a, Num b) \<Rightarrow>
          if b = 0 then (if a = 0 then NaN else if 0 < a then Infinity else NegInfinity)
          else rnd (a / b)
      | (Num a, _) \<Rightarrow> Num 0
      | (Infinity, Num b) \<Rightarrow> if 0 \<le> b then Infinity else NegInfinity
      | (NegInfinity, Num b) \<Rightarrow> if 0 \<le> b then NegInfinity else Infinity
      | (_, _) \<Rightarrow> NaN)"

definition fsqrt :: "jsnum \<Rightarrow> jsnum" where
  "fsqrt x =
     (case x of Num a \<Rightarrow> if a < 0 then NaN else rnd (sqrt a) | Infinity \<Rightarrow> Infinity | _ \<Rightarrow> NaN)"

text \<open>The truthiness of a number: 0 and \<open>NaN\<close> are falsy.\<close>

definition num_truthy :: "jsnum \<Rightarrow> bool" where
  "num_truthy v = (case v of Num r \<Rightarrow> r \<noteq> 0 | NaN \<Rightarrow> False | _ \<Rightarrow> True)"

subsection \<open>String operations\<close>

text \<open>\<open>s.includes(sub)\<close> and \<open>s.startsWith(p)\<close>.\<close>

fun js_includes :: "string \<Rightarrow> string \<Rightarrow> bool" where
  "js_includes [] sub = (sub = [])"
| "js_includes (c # cs) sub = (prefix sub (c # cs) \<or> js_includes cs sub)"

definition startsWith :: "string \<Rightarrow> string \<Rightarrow> bool" where
  "startsWith s p = prefix p s"

text \<open>
  White space and line terminators below 256: tab, line feed, vertical tab, form feed,
  carriage return, space and no-break space. This is what \<open>trim\<close> strips and what
  \<open>\s\<close> matches in a regular expression.
\<close>

definition is_space :: "char \<Rightarrow> bool" where
  "is_space c = (c \<in> set [CHR 0x09, CHR 0x0A, CHR 0x0B, CHR 0x0C, CHR 0x0D, CHR 0x20, CHR 0xA0])"

definition is_digit :: "char \<Rightarrow> bool" where
  "is_digit c = (c \<in> set ''0123456789'')"

definition js_trim :: "string \<Rightarrow> string" where
  "js_trim s = rev (dropWhile is_space (rev (dropWhile is_space s)))"

text \<open>
  \<open>toLowerCase\<close>: A to Z, and the Latin-1 capitals 0xC0 to 0xDE except the
  multiplication sign 0xD7, move up by 32.
\<close>

definition lower_char :: "char \<Rightarrow> char" where
  "lower_char c =
     (let n = (of_char c :: nat)
      in if (65 \<le> n \<and> n \<le> 90) \<or> (192 \<le> n \<and> n \<le> 214) \<or> (216 \<le> n \<and> n \<le> 222)
         then char_of (n + 32) else c)"

definition toLowerCase :: "string \<Rightarrow> string" where
  "toLowerCase s = map lower_char s"

text \<open>
  \<open>s.split(/\s+/)\<close>: the pieces between maximal runs of white space. A string that
  starts or ends with white space has an empty first or last piece, and the empty string
  splits into one empty piece.
\<close>

function split_ws :: "string \<Rightarrow> string list" where
  "split_ws s =
     (let tok = takeWhile (\<lambda>c. \<not> is_space c) s;
          rest = dropWhile (\<lambda>c. \<not> is_space c) s
      in if rest = [] then [tok] else tok # split_ws (dropWhile is_space rest))"
  by pat_completeness auto
termination
proof (relation "measure length")
  show "wf (measure length)" by simp
next
  fix s :: string and tok rest
  assume rest: "rest = dropWhile (\<lambda>c. \<not> is_space c) s" and ne: "rest \<noteq> []"
  from ne have "is_space (hd rest)"
    using hd_dropWhile [of "\<lambda>c. \<not> is_space c" s] rest by auto
  with ne have "dropWhile is_space rest = dropWhile is_space (tl rest)"
    by (cases rest) auto
  moreover have "length (dropWhile is_space (tl rest)) \<le> length (tl rest)"
    by (rule length_dropWhile_le)
  ultimately have "length (dropWhile is_space rest) \<le> length (tl rest)"
    by simp
  also from ne have "\<dots> < length rest" by (cases rest) auto
  also have "\<dots> \<le> length s" by (simp add: rest length_dropWhile_le)
  finally show "(dropWhile is_space rest, s) \<in> measure length" by simp
qed

declare split_ws.simps [simp del]

text \<open>Decimal rendering of a natural number, as a template literal does.\<close>

fun show_nat :: "nat \<Rightarrow> string" where
  "show_nat n =
     (if n < 10 then [char_of (48 + n)] else show_nat (n div 10) @ [char_of (48 + n mod 10)])"

declare show_nat.simps [simp del]

section \<open>Budget estimator\<close>

definition MAX_TEXT_LENGTH :: nat where "MAX_TEXT_LENGTH = 12000"
definition MAX_INPUT_LENGTH :: nat where "MAX_INPUT_LENGTH = 8000"
definition MAX_CATEGORIZE_LENGTH :: nat where "MAX_CATEGORIZE_LENGTH = 1000"
definition MAX_SEARCH_ITEMS :: nat where "MAX_SEARCH_ITEMS = 10"
definition MAX_SEARCH_ITEM_LENGTH :: nat where "MAX_SEARCH_ITEM_LENGTH = 200"

text \<open>
  The three functions below take a string. For an absent text the source returns 0, the
  text itself and a falsy value: these calls are not modelled, the callers pass strings.
  \<open>!text\<close> on a string holds for the empty string only.
\<close>

text \<open>\<open>estimateTokens\<close>: \<open>Math.ceil(text.length / 4)\<close>, and 0 for the empty text.\<close>

definition estimateTokens :: "string \<Rightarrow> nat" where
  "estimateTokens text = (if text = [] then 0 else (length text + 3) div 4)"

text \<open>
  \<open>truncateText\<close>: an empty text and a text no longer than \<open>maxLength\<close> come back
  as they are; a longer one is cut to \<open>maxLength\<close> code units and gets the marker.
  Every call passes a non-negative integer constant as \<open>maxLength\<close>.
\<close>

definition truncateText :: "string \<Rightarrow> nat \<Rightarrow> string" where
  "truncateText text maxLength =
     (if text = [] \<or> length text \<le> maxLength then text
      else take maxLength text @ ''...'')"

text \<open>\<open>isTextTooLarge\<close>, read as a condition: \<open>text && text.length > maxLength\<close>.\<close>

definition isTextTooLarge :: "string \<Rightarrow> nat \<Rightarrow> bool" where
  "isTextTooLarge text maxLength = (text \<noteq> [] \<and> length text > maxLength)"

section \<open>Heuristic classifier\<close>

text \<open>\<open>/^[0-9]+$/.test(s)\<close>: one digit or more and nothing else.\<close>

definition all_digits :: "string \<Rightarrow> bool" where
  "all_digits s = (s \<noteq> [] \<and> list_all is_digit s)"

definition fallbackCategorize :: "string option \<Rightarrow> string" where
  "fallbackCategorize text =
     (if \<not> truthy text then ''other''
      else let t = the text in
        if js_includes t ''@'' \<and> js_includes t ''.'' then ''email''
        else if startsWith t ''http://'' \<or> startsWith t ''https://'' then ''link''
        else if all_digits (js_trim t) then ''number''
        else if js_includes t ''{'' \<or> js_includes t ''['' then ''json''
        else if js_includes t ''<'' \<and> js_includes t ''>'' then ''html''
        else if js_includes t ''function'' \<or> js_includes t ''const '' \<or> js_includes t ''var ''
                \<or> js_includes t ''class '' then ''code''
        else if js_includes t ''<?xml'' \<or> js_includes t ''<xml'' then ''xml''
        else if startsWith t ''#!'' \<or> startsWith t ''sudo '' \<or> startsWith t ''npm ''
                \<or> startsWith t ''git '' then ''command''
        else ''note'')"

section \<open>Provider gateway\<close>

text \<open>
  The service object holds the two credentials; a credential is absent (\<open>null\<close>) or a
  string, and the empty string counts as absent wherever the source tests \<open>!apiKey\<close>.
\<close>

record service =
  openaiApiKey :: "string option"
  groqApiKey :: "string option"

definition openaiModel :: string where "openaiModel = ''gpt-4o-mini''"
definition groqModel :: string where "groqModel = ''llama-3.1-8b-instant''"

text \<open>An \<open>Error\<close> object is its message.\<close>

datatype js_error = Error (message: string)

record message =
  role :: string
  content :: "string option"

text \<open>
  The request bodies: a chat completion with \<open>model\<close>, \<open>messages\<close>, \<open>temperature\<close> and
  \<open>max_tokens\<close>, and an embedding request with \<open>model\<close> and \<open>input\<close>.
\<close>

datatype request_data =
    ChatData string "message list" real nat
  | EmbeddingData string string

text \<open>
  What the parsed body of a response without \<open>error\<close> holds: \<open>ChatJson c\<close> has
  \<open>choices[0].message\<close> with content \<open>c\<close>, \<open>EmbeddingJson e\<close> has \<open>data[0]\<close> with
  embedding \<open>e\<close>, \<open>OtherJson\<close> has neither.
\<close>

datatype response_json =
    ChatJson "string option"
  | EmbeddingJson "jsnum list option"
  | OtherJson

text \<open>
  The outcome of one HTTPS request: the request's \<open>error\<close> event with its message, a
  body that \<open>JSON.parse\<close> rejects, a body with a truthy \<open>error\<close> and its \<open>message\<close>,
  or a body without \<open>error\<close>.
\<close>

datatype http_outcome =
    TransportError string
  | Unparseable
  | ErrorJson "string option"
  | OkJson response_json

text \<open>
  The network is a parameter: host name, path, bearer credential and body go in together
  with the state of the outside world, an outcome and the next state of the world come
  back. Every request is assumed to complete.
\<close>

type_synonym 'w transport = "string \<Rightarrow> string \<Rightarrow> string \<Rightarrow> request_data \<Rightarrow> 'w \<Rightarrow> http_outcome \<times> 'w"

text \<open>
  The effects of a call, in the order they happen: the requests sent, each with host
  name, path, bearer credential and body, and the timers set, each with its delay in
  milliseconds. Lines written to the console are left out.
\<close>

datatype effect =
    Post string string string request_data
  | SetTimeout jsnum

record 'w io =
  world :: 'w
  trace :: "effect list"

text \<open>The outcome of an \<open>async\<close> function: \<open>Inl\<close> is a rejection.\<close>

type_synonym ('a, 'w) promise = "(js_error + 'a) \<times> 'w io"

subsection \<open>Rate limits\<close>

definition is_num_char :: "char \<Rightarrow> bool" where
  "is_num_char c = (is_digit c \<or> c = CHR ''.'')"

text \<open>
  \<open>/try again in ([\d.]+)s/i\<close> tried at the start of \<open>s\<close>: the words in either case, a
  longest run of digits and dots that is not empty, and an \<open>s\<close> in either case. The
  result is the run.
\<close>

definition match_wait_here :: "string \<Rightarrow> string option" where
  "match_wait_here s =
     (if toLowerCase (take 13 s) = ''try again in '' then
        (let run = takeWhile is_num_char (drop 13 s);
             rest = dropWhile is_num_char (drop 13 s)
         in if run \<noteq> [] \<and> rest \<noteq> [] \<and> lower_char (hd rest) = CHR ''s'' then Some run else None)
      else None)"

text \<open>The leftmost match in the message.\<close>

fun find_wait :: "string \<Rightarrow> string option" where
  "find_wait [] = None"
| "find_wait (c # cs) =
     (case match_wait_here (c # cs) of Some run \<Rightarrow> Some run | None \<Rightarrow> find_wait cs)"

definition digit_val :: "char \<Rightarrow> nat" where
  "digit_val c = of_char c - 48"

definition dec_val :: "string \<Rightarrow> nat" where
  "dec_val ds = foldl (\<lambda>a d. 10 * a + digit_val d) 0 ds"

text \<open>
  \<open>parseFloat\<close> on a run of digits and dots: the digits before the first dot and the
  digits right after it are read as a decimal numeral, whose value is rounded to the
  nearest double; \<open>NaN\<close> when there is no digit in either place. For a numeral of more
  than 20 significant digits the language lets an engine pick either neighbour; the
  model rounds to the nearest, as V8 does.
\<close>

definition parseFloat :: "string \<Rightarrow> jsnum" where
  "parseFloat run =
     (let ip = takeWhile is_digit run;
          after = dropWhile is_digit run;
          fp = (case after of [] \<Rightarrow> [] | d # ds \<Rightarrow> if d = CHR ''.'' then takeWhile is_digit ds else [])
      in if ip = [] \<and> fp = [] then NaN
         else rnd (real (dec_val ip) + real (dec_val fp) / 10 ^ length fp))"

text \<open>\<open>Math.ceil\<close>: the ceiling of a double is a double.\<close>

definition js_ceil :: "jsnum \<Rightarrow> jsnum" where
  "js_ceil v = (case v of Num r \<Rightarrow> Num (of_int \<lceil>r\<rceil>) | _ \<Rightarrow> v)"

text \<open>
  \<open>extractWaitTime\<close>: \<open>Math.ceil(seconds * 1000)\<close> on the number of the leftmost
  match; \<open>None\<close> is the \<open>null\<close> of a message without a match.
\<close>

definition extractWaitTime :: "string \<Rightarrow> jsnum option" where
  "extractWaitTime errorMessage =
     (case find_wait errorMessage of
        Some run \<Rightarrow> (let seconds = parseFloat run in Some (js_ceil (fmul seconds (Num 1000))))
      | None \<Rightarrow> None)"

definition isRateLimitError :: "js_error \<Rightarrow> bool" where
  "isRateLimitError error =
     (let msg = (if message error = [] then ''Error'' else message error)
      in js_includes msg ''rate limit'' \<or> js_includes msg ''Rate limit''
         \<or> js_includes msg ''TPM'' \<or> js_includes msg ''tokens per minute'')"

text \<open>
  \<open>extractWaitTime(error.message) || (1000 * Math.pow(2, retryCount))\<close>: the advised
  wait unless it is \<open>null\<close>, \<open>NaN\<close> or 0. \<open>Math.pow(2, n)\<close> is the power of two as a
  double, and the product with 1000 is a product of doubles.
\<close>

definition waitTime :: "string \<Rightarrow> nat \<Rightarrow> jsnum" where
  "waitTime msg retryCount =
     (case extractWaitTime msg of
        Some v \<Rightarrow> if num_truthy v then v else fmul (Num 1000) (rnd (2 ^ retryCount))
      | None \<Rightarrow> fmul (Num 1000) (rnd (2 ^ retryCount)))"

subsection \<open>One request, with its retries\<close>

text \<open>
  \<open>makeRequest\<close>: without a credential it rejects before any request. Otherwise it sends
  one request; a rate-limit error below the retry ceiling sets a timer and calls
  \<open>makeRequest\<close> again with the next retry count, whose outcome is the outcome.
\<close>

function makeRequest ::
  "service \<Rightarrow> 'w transport \<Rightarrow> string \<Rightarrow> request_data \<Rightarrow> string \<Rightarrow> nat \<Rightarrow> 'w io
     \<Rightarrow> (response_json, 'w) promise" where
  "makeRequest svc tr endpoint data provider retryCount s =
     (let isGroq = (provider = ''groq'');
          apiKey = (if isGroq then groqApiKey svc else openaiApiKey svc);
          hostname = (if isGroq then ''api.groq.com'' else ''api.openai.com'');
          path = (if isGroq then ''/openai/v1'' @ endpoint else endpoint);
          maxRetries = 3
      in if \<not> truthy apiKey
         then (Inl (Error ((if isGroq then ''Groq'' else ''OpenAI'') @ '' API key not set.'')), s)
         else
           (let res = tr hostname path (the apiKey) data (world s);
                s1 = s\<lparr>world := snd res, trace := trace s @ [Post hostname path (the apiKey) data]\<rparr>
            in case fst res of
                 TransportError m \<Rightarrow> (Inl (Error m), s1)
               | Unparseable \<Rightarrow> (Inl (Error ''Failed to parse AI response''), s1)
               | OkJson json \<Rightarrow> (Inr json, s1)
               | ErrorJson m \<Rightarrow>
                   (let error = Error (or_else m ''API error'')
                    in if isRateLimitError error \<and> retryCount < maxRetries
                       then makeRequest svc tr endpoint data provider (retryCount + 1)
                              (s1\<lparr>trace := trace s1 @ [SetTimeout (waitTime (message error) retryCount)]\<rparr>)
                       else (Inl error, s1))))"
  by pat_completeness auto
termination
  by (relation "measure (\<lambda>(svc, tr, endpoint, data, provider, retryCount, s). 3 - retryCount)") auto

declare makeRequest.simps [simp del]

section \<open>Fallback orchestrator\<close>

text \<open>\<open>Array.prototype.join\<close> on strings.\<close>

fun js_join :: "string \<Rightarrow> string list \<Rightarrow> string" where
  "js_join sep [] = []"
| "js_join sep [x] = x"
| "js_join sep (x # y # ys) = x @ sep @ js_join sep (y # ys)"

text \<open>
  The message of the \<open>TypeError\<close> that reading a property of \<open>undefined\<close> throws. No
  handler of the service finds any of its key words in it.
\<close>

definition type_error :: js_error where
  "type_error = Error ''Cannot read properties of undefined''"

text \<open>\<open>response.choices[0].message.content\<close>.\<close>

definition chat_content :: "response_json \<Rightarrow> js_error + string option" where
  "chat_content json = (case json of ChatJson c \<Rightarrow> Inr c | _ \<Rightarrow> Inl type_error)"

definition estimatedTokens :: "message list \<Rightarrow> string option \<Rightarrow> nat" where
  "estimatedTokens msgs systemPrompt =
     (let messagesText = js_join '' '' (map (\<lambda>m. or_else (content m) []) msgs);
          systemText = or_else systemPrompt [];
          totalText = systemText @ '' '' @ messagesText
      in estimateTokens totalText)"

definition too_large_error :: "nat \<Rightarrow> js_error" where
  "too_large_error n =
     Error (''Request too large (estimated '' @ show_nat n
            @ '' tokens, max ~4000). Please reduce text size.'')"

text \<open>
  The body of the \<open>try\<close> block of \<open>chatCompletion\<close>: the request to the provider and
  the reading of the answer.
\<close>

definition chat_attempt ::
  "service \<Rightarrow> 'w transport \<Rightarrow> message list \<Rightarrow> string option \<Rightarrow> string \<Rightarrow> 'w io
     \<Rightarrow> (string option, 'w) promise" where
  "chat_attempt svc tr msgs systemPrompt provider s =
     (let messagesArray =
            (if truthy systemPrompt then \<lparr>role = ''system'', content = systemPrompt\<rparr> # msgs
             else msgs);
          model = (if provider = ''groq'' then groqModel else openaiModel);
          endpoint = ''/chat/completions'';
          maxTokens = (if provider = ''groq'' then 600 else 800);
          res = makeRequest svc tr endpoint (ChatData model messagesArray (7 / 10) maxTokens)
                  provider 0 s
      in case fst res of
           Inl e \<Rightarrow> (Inl e, snd res)
         | Inr response \<Rightarrow> (chat_content response, snd res))"

function chatCompletion ::
  "service \<Rightarrow> 'w transport \<Rightarrow> message list \<Rightarrow> string option \<Rightarrow> string \<Rightarrow> 'w io
     \<Rightarrow> (string option, 'w) promise" where
  "chatCompletion svc tr msgs systemPrompt provider s =
     (if estimatedTokens msgs systemPrompt > 4000 then
        (if provider = ''groq'' \<and> truthy (openaiApiKey svc)
         then chatCompletion svc tr msgs systemPrompt ''openai'' s
         else (Inl (too_large_error (estimatedTokens msgs systemPrompt)), s))
      else
        (let res = chat_attempt svc tr msgs systemPrompt provider s
         in case fst res of
              Inr c \<Rightarrow> (Inr c, snd res)
            | Inl error \<Rightarrow>
                if (js_includes (message error) ''too large'' \<or> js_includes (message error) ''TPM''
                    \<or> js_includes (message error) ''Requested'')
                   \<and> provider = ''groq'' \<and> truthy (openaiApiKey svc)
                then chatCompletion svc tr msgs systemPrompt ''openai'' (snd res)
                else if provider = ''groq'' \<and> truthy (openaiApiKey svc)
                then chatCompletion svc tr msgs systemPrompt ''openai'' (snd res)
                else (Inl error, snd res)))"
  by pat_completeness auto
termination
  by (relation "measure (\<lambda>(svc, tr, msgs, systemPrompt, provider, s).
                   if provider = ''groq'' then 1 else 0)") auto

declare chatCompletion.simps [simp del]

section \<open>Feature operations\<close>

subsection \<open>Categorization\<close>

definition categories :: "string list" where
  "categories = [''code'', ''email'', ''link'', ''note'', ''password'', ''number'', ''command'',
                 ''json'', ''xml'', ''html'', ''other'']"

definition categorize_prompt :: "string \<Rightarrow> string" where
  "categorize_prompt sampleText =
     ''Categorize the following text into one of these categories: '' @ js_join '', '' categories
     @ ''. Return only the category name, nothing else.'' @ [CHR 0x0A, CHR 0x0A]
     @ ''Text: '' @ sampleText"

text \<open>
  \<open>categorizeText\<close>. Everything that can throw is inside the \<open>try\<close> block: a rejected
  \<open>chatCompletion\<close>, and \<open>trim\<close> called on an absent content. Both branches of the
  handler return the heuristic label.
\<close>

definition categorizeText ::
  "service \<Rightarrow> 'w transport \<Rightarrow> string \<Rightarrow> 'w io \<Rightarrow> (string, 'w) promise" where
  "categorizeText svc tr text s =
     (if isTextTooLarge text MAX_CATEGORIZE_LENGTH then (Inr (fallbackCategorize (Some text)), s)
      else
        (let sampleText = truncateText text MAX_CATEGORIZE_LENGTH;
             prompt = categorize_prompt sampleText;
             res = chatCompletion svc tr [\<lparr>role = ''user'', content = Some prompt\<rparr>] None ''groq'' s
         in case fst res of
              Inr category \<Rightarrow>
                (case category of
                   None \<Rightarrow> (Inr (fallbackCategorize (Some text)), snd res)
                 | Some c \<Rightarrow>
                     (let cleanCategory = toLowerCase (js_trim c)
                      in (Inr (case find (\<lambda>c. js_includes cleanCategory c) categories of
                                 Some c \<Rightarrow> c | None \<Rightarrow> ''other''), snd res)))
            | Inl error \<Rightarrow>
                if isRateLimitError error \<or> js_includes (message error) ''too large''
                   \<or> js_includes (message error) ''TPM''
                then (Inr (fallbackCategorize (Some text)), snd res)
                else (Inr (fallbackCategorize (Some text)), snd res)))"

subsection \<open>Cosine similarity\<close>

text \<open>
  The loop of \<open>cosineSimilarity\<close> over the indices of \<open>vecA\<close>, on the three
  accumulators \<open>dotProduct\<close>, \<open>normA\<close> and \<open>normB\<close>.
\<close>

definition cosine_sums :: "jsnum list \<Rightarrow> jsnum list \<Rightarrow> jsnum \<times> jsnum \<times> jsnum" where
  "cosine_sums vecA vecB =
     foldl (\<lambda>(dotProduct, normA, normB) i.
              (fadd dotProduct (fmul (vecA ! i) (vecB ! i)),
               fadd normA (fmul (vecA ! i) (vecA ! i)),
               fadd normB (fmul (vecB ! i) (vecB ! i))))
           (Num 0, Num 0, Num 0) [0..<length vecA]"

text \<open>
  \<open>cosineSimilarity\<close>: an absent vector and two vectors of different lengths give 0;
  an empty array is not absent. The loop reads \<open>vecB\<close> within its length, the lengths
  being equal. The entries of a vector are numbers.
\<close>

definition cosineSimilarity :: "jsnum list option \<Rightarrow> jsnum list option \<Rightarrow> jsnum" where
  "cosineSimilarity vecA vecB =
     (case vecA of
        None \<Rightarrow> Num 0
      | Some a \<Rightarrow>
          (case vecB of
             None \<Rightarrow> Num 0
           | Some b \<Rightarrow>
               if length a \<noteq> length b then Num 0
               else (case cosine_sums a b of
                       (dotProduct, normA, normB) \<Rightarrow>
                         fdiv dotProduct (fmul (fsqrt normA) (fsqrt normB)))))"

subsection \<open>Search\<close>

record item =
  "text" :: string
  embedding :: "jsnum list option"

text \<open>\<open>generateEmbedding\<close>, with \<open>response.data[0].embedding\<close>.\<close>

definition generateEmbedding ::
  "service \<Rightarrow> 'w transport \<Rightarrow> string \<Rightarrow> string \<Rightarrow> 'w io \<Rightarrow> (jsnum list option, 'w) promise" where
  "generateEmbedding svc tr txt provider s =
     (if provider = ''groq''
      then (Inl (Error ''Groq does not support embeddings. Use OpenAI or keyword search.''), s)
      else
        (let res = makeRequest svc tr ''/embeddings'' (EmbeddingData ''text-embedding-3-small'' txt)
                     provider 0 s
         in case fst res of
              Inl e \<Rightarrow> (Inl e, snd res)
            | Inr response \<Rightarrow>
                (case response of
                   EmbeddingJson e \<Rightarrow> (Inr e, snd res)
                 | _ \<Rightarrow> (Inl type_error, snd res))))"

text \<open>Subtraction of doubles, and the test \<open>v > 0\<close> a sort makes on a comparator's value.\<close>

definition js_minus :: "jsnum \<Rightarrow> jsnum \<Rightarrow> jsnum" where
  "js_minus x y =
     (case (x, y) of
        (Num a, Num b) \<Rightarrow> rnd (a - b)
      | (NaN, _) \<Rightarrow> NaN
      | (_, NaN) \<Rightarrow> NaN
      | (Infinity, Infinity) \<Rightarrow> NaN
      | (Infinity, _) \<Rightarrow> Infinity
      | (NegInfinity, NegInfinity) \<Rightarrow> NaN
      | (NegInfinity, _) \<Rightarrow> NegInfinity
      | (Num a, Infinity) \<Rightarrow> NegInfinity
      | (Num a, NegInfinity) \<Rightarrow> Infinity)"

definition js_positive :: "jsnum \<Rightarrow> bool" where
  "js_positive v = (case v of Num r \<Rightarrow> 0 < r | Infinity \<Rightarrow> True | _ \<Rightarrow> False)"

text \<open>
  \<open>similarities.sort((a, b) => b.similarity - a.similarity)\<close>. The sort of an array is
  stable: an element moves behind another only when the comparator on the two is
  positive. Where a similarity is \<open>NaN\<close> the comparator is not consistent and the engine
  is free in the order; the model then gives the order of a stable insertion.
\<close>

fun sort_insert :: "'a \<times> jsnum \<Rightarrow> ('a \<times> jsnum) list \<Rightarrow> ('a \<times> jsnum) list" where
  "sort_insert x [] = [x]"
| "sort_insert x (y # ys) =
     (if js_positive (js_minus (snd y) (snd x)) then y # sort_insert x ys else x # y # ys)"

definition sort_by_similarity :: "('a \<times> jsnum) list \<Rightarrow> ('a \<times> jsnum) list" where
  "sort_by_similarity xs = foldr sort_insert xs []"

text \<open>\<open>item.embedding && item.embedding.length > 0\<close>.\<close>

definition has_embedding :: "'a item_scheme \<Rightarrow> bool" where
  "has_embedding it = (case embedding it of None \<Rightarrow> False | Some e \<Rightarrow> e \<noteq> [])"

text \<open>
  The first \<open>try\<close> block of \<open>semanticSearch\<close>. \<open>None\<close> is control reaching the end of
  the block, or its handler, without a \<open>return\<close>.
\<close>

definition embedding_search ::
  "service \<Rightarrow> 'w transport \<Rightarrow> string \<Rightarrow> 'a item_scheme list \<Rightarrow> nat \<Rightarrow> 'w io
     \<Rightarrow> 'a item_scheme list option \<times> 'w io" where
  "embedding_search svc tr safeQuery limitedItems limit s =
     (if truthy (openaiApiKey svc) then
        (let queryForEmbedding = truncateText safeQuery 1000;
             res = generateEmbedding svc tr queryForEmbedding ''openai'' s
         in case fst res of
              Inl error \<Rightarrow> (None, snd res)
            | Inr queryEmbedding \<Rightarrow>
                (let itemsWithEmbeddings = filter has_embedding limitedItems
                 in if itemsWithEmbeddings \<noteq> [] then
                      (let similarities =
                             map (\<lambda>it. (it, cosineSimilarity queryEmbedding (embedding it)))
                               itemsWithEmbeddings;
                           results = map fst (take limit (sort_by_similarity similarities))
                       in if results \<noteq> [] then (Some results, snd res) else (None, snd res))
                    else (None, snd res)))
      else (None, s))"

text \<open>\<open>response.match(/\d+/g)\<close>: the maximal runs of digits, from left to right.\<close>

function digit_runs :: "string \<Rightarrow> string list" where
  "digit_runs s =
     (let s' = dropWhile (\<lambda>c. \<not> is_digit c) s
      in if s' = [] then [] else takeWhile is_digit s' # digit_runs (dropWhile is_digit s'))"
  by pat_completeness auto
termination
proof (relation "measure length")
  show "wf (measure length)" by simp
next
  fix s :: string and s'
  assume s': "s' = dropWhile (\<lambda>c. \<not> is_digit c) s" and ne: "s' \<noteq> []"
  from ne have "is_digit (hd s')"
    using hd_dropWhile [of "\<lambda>c. \<not> is_digit c" s] s' by auto
  with ne have "dropWhile is_digit s' = dropWhile is_digit (tl s')"
    by (cases s') auto
  moreover have "length (dropWhile is_digit (tl s')) \<le> length (tl s')"
    by (rule length_dropWhile_le)
  ultimately have "length (dropWhile is_digit s') \<le> length (tl s')"
    by simp
  also from ne have "\<dots> < length s'" by (cases s') auto
  also have "\<dots> \<le> length s" by (simp add: s' length_dropWhile_le)
  finally show "(dropWhile is_digit s', s) \<in> measure length" by simp
qed

declare digit_runs.simps [simp del]

definition search_prompt :: "string \<Rightarrow> string \<Rightarrow> nat \<Rightarrow> string" where
  "search_prompt safeQuery itemsForSearch limit =
     ''Given the query: '' @ [CHR 0x22] @ safeQuery @ [CHR 0x22, CHR 0x0A, CHR 0x0A]
     @ ''Find the most relevant items from this list:'' @ [CHR 0x0A] @ itemsForSearch
     @ [CHR 0x0A, CHR 0x0A]
     @ ''Return only the numbers (comma-separated) of the most relevant items, max ''
     @ show_nat limit @ '' items.''"

text \<open>
  The second \<open>try\<close> block of \<open>semanticSearch\<close>; \<open>None\<close> as above. \<open>parseInt(n) - 1\<close> is
  an integer, and the filter keeps the indices of \<open>limitedItems\<close>.
\<close>

definition ranking_search ::
  "service \<Rightarrow> 'w transport \<Rightarrow> string \<Rightarrow> 'a item_scheme list \<Rightarrow> nat \<Rightarrow> 'w io
     \<Rightarrow> 'a item_scheme list option \<times> 'w io" where
  "ranking_search svc tr safeQuery limitedItems limit s =
     (if truthy (groqApiKey svc) \<and> \<not> isTextTooLarge safeQuery 500 then
        (let itemsForSearch =
               js_join [CHR 0x0A]
                 (map (\<lambda>(i, it). show_nat (i + 1) @ ''. ''
                                  @ truncateText (text it) MAX_SEARCH_ITEM_LENGTH)
                    (enumerate 0 limitedItems));
             prompt = search_prompt safeQuery itemsForSearch limit
         in if estimateTokens prompt > 2000 then (None, s)
            else
              (let res = chatCompletion svc tr [\<lparr>role = ''user'', content = Some prompt\<rparr>] None
                           ''groq'' s
               in case fst res of
                    Inl error \<Rightarrow> (None, snd res)
                  | Inr response \<Rightarrow>
                      (case response of
                         None \<Rightarrow> (None, snd res)
                       | Some r \<Rightarrow>
                           (let numbers = digit_runs r
                            in if numbers \<noteq> [] then
                                 (let indices =
                                        filter (\<lambda>i. 0 \<le> i \<and> i < int (length limitedItems))
                                          (map (\<lambda>n. int (dec_val n) - 1) numbers)
                                  in (Some (map (\<lambda>i. limitedItems ! nat i) (take limit indices)),
                                      snd res))
                               else (None, snd res)))))
      else (None, s))"

text \<open>The last statement of \<open>semanticSearch\<close>: the keyword search over \<open>items\<close>.\<close>

definition keyword_search :: "string \<Rightarrow> 'a item_scheme list \<Rightarrow> nat \<Rightarrow> 'a item_scheme list" where
  "keyword_search safeQuery items limit =
     (let queryLower = toLowerCase safeQuery
      in take limit
           (filter (\<lambda>it.
                      let itemText = toLowerCase (text it);
                          words = filter (\<lambda>w. length w > 2) (split_ws queryLower)
                      in words = [] \<or> list_ex (\<lambda>word. js_includes itemText word) words)
              items))"

text \<open>
  \<open>semanticSearch\<close>: the query and every item text are strings and \<open>limit\<close> is a
  natural number, as in the call of the application.
\<close>

definition semanticSearch ::
  "service \<Rightarrow> 'w transport \<Rightarrow> string \<Rightarrow> 'a item_scheme list \<Rightarrow> nat \<Rightarrow> 'w io
     \<Rightarrow> ('a item_scheme list, 'w) promise" where
  "semanticSearch svc tr query items limit s =
     (let safeQuery = truncateText query 500;
          limitedItems = take MAX_SEARCH_ITEMS items;
          r1 = embedding_search svc tr safeQuery limitedItems limit s
      in case fst r1 of
           Some results \<Rightarrow> (Inr results, snd r1)
         | None \<Rightarrow>
             (let r2 = ranking_search svc tr safeQuery limitedItems limit (snd r1)
              in case fst r2 of
                   Some results \<Rightarrow> (Inr results, snd r2)
                 | None \<Rightarrow> (Inr (keyword_search safeQuery items limit), snd r2)))"

section \<open>Observations and sample inputs\<close>

text \<open>The delays of the timers in a trace, and its requests, both in order.\<close>

fun timers :: "effect list \<Rightarrow> jsnum list" where
  "timers [] = []"
| "timers (SetTimeout v # es) = v # timers es"
| "timers (Post h p k d # es) = timers es"

fun posts :: "effect list \<Rightarrow> effect list" where
  "posts [] = []"
| "posts (SetTimeout v # es) = posts es"
| "posts (Post h p k d # es) = Post h p k d # posts es"

text \<open>
  The sum of the squares of a vector's entries as the loop of \<open>cosineSimilarity\<close>
  computes it, from 0 and entry by entry: the square of the norm, in doubles.
\<close>

definition squares :: "jsnum list \<Rightarrow> jsnum" where
  "squares v = foldl (\<lambda>acc x. fadd acc (fmul x x)) (Num 0) v"

text \<open>
  The credential, the host and the path of a request to a provider, the request of a
  call as it goes on the trace, and the exchange with the network that it makes.
\<close>

definition api_key :: "service \<Rightarrow> string \<Rightarrow> string option" where
  "api_key svc provider = (if provider = ''groq'' then groqApiKey svc else openaiApiKey svc)"

definition api_host :: "string \<Rightarrow> string" where
  "api_host provider = (if provider = ''groq'' then ''api.groq.com'' else ''api.openai.com'')"

definition api_path :: "string \<Rightarrow> string \<Rightarrow> string" where
  "api_path provider endpoint = (if provider = ''groq'' then ''/openai/v1'' @ endpoint else endpoint)"

definition sent :: "service \<Rightarrow> string \<Rightarrow> request_data \<Rightarrow> string \<Rightarrow> effect" where
  "sent svc endpoint data provider =
     Post (api_host provider) (api_path provider endpoint) (the (api_key svc provider)) data"

definition exchange ::
  "service \<Rightarrow> 'w transport \<Rightarrow> string \<Rightarrow> request_data \<Rightarrow> string \<Rightarrow> 'w \<Rightarrow> http_outcome \<times> 'w" where
  "exchange svc tr endpoint data provider =
     tr (api_host provider) (api_path provider endpoint) (the (api_key svc provider)) data"

text \<open>
  One exchange made again and again, from the world \<open>w\<close>: the world before the
  exchange of index \<open>i\<close>, and the answer to it.
\<close>

fun world_before :: "('w \<Rightarrow> http_outcome \<times> 'w) \<Rightarrow> nat \<Rightarrow> 'w \<Rightarrow> 'w" where
  "world_before ask 0 w = w"
| "world_before ask (Suc i) w = world_before ask i (snd (ask w))"

definition answer :: "('w \<Rightarrow> http_outcome \<times> 'w) \<Rightarrow> nat \<Rightarrow> 'w \<Rightarrow> http_outcome" where
  "answer ask i w = fst (ask (world_before ask i w))"

text \<open>
  An answer is rate limited when it is an error body whose message
  \<open>isRateLimitError\<close> accepts; \<open>error_text\<close> is the message of the \<open>Error\<close> made from
  an error body, and \<open>settled\<close> is how an answer settles the promise when no retry
  follows it.
\<close>

definition error_text :: "http_outcome \<Rightarrow> string" where
  "error_text r = (case r of ErrorJson m \<Rightarrow> or_else m ''API error'' | _ \<Rightarrow> [])"

definition rate_limited :: "http_outcome \<Rightarrow> bool" where
  "rate_limited r = (case r of ErrorJson m \<Rightarrow> isRateLimitError (Error (error_text r)) | _ \<Rightarrow> False)"

definition settled :: "http_outcome \<Rightarrow> js_error + response_json" where
  "settled r =
     (case r of
        TransportError m \<Rightarrow> Inl (Error m)
      | Unparseable \<Rightarrow> Inl (Error ''Failed to parse AI response'')
      | ErrorJson m \<Rightarrow> Inl (Error (error_text r))
      | OkJson json \<Rightarrow> Inr json)"

text \<open>The words of a query that count in the keyword search.\<close>

definition query_words :: "string \<Rightarrow> string list" where
  "query_words q = filter (\<lambda>w. 2 < length w) (split_ws (toLowerCase q))"

text \<open>Three services: both credentials, the fast one only, none.\<close>

definition both_keys :: service where
  "both_keys = \<lparr>openaiApiKey = Some ''sk-primary'', groqApiKey = Some ''gsk-fast''\<rparr>"

definition fast_only :: service where
  "fast_only = \<lparr>openaiApiKey = None, groqApiKey = Some ''gsk-fast''\<rparr>"

definition no_keys :: service where
  "no_keys = \<lparr>openaiApiKey = None, groqApiKey = None\<rparr>"

text \<open>
  Stub networks; the world is the number of requests answered so far. The first fails
  every request to the fast provider with a generic error and answers the primary one.
  The second answers every request with the same rate-limit error, and the third the
  first request with a rate-limit error that advises no wait and every later one with a
  chat. The fourth and the fifth answer every chat with a fixed text, the sixth every
  request with a fixed embedding, and the last refuses every connection.
\<close>

definition failover_transport :: "nat transport" where
  "failover_transport hostname pth key data w =
     (if hostname = ''api.groq.com'' then (ErrorJson (Some ''model overloaded''), Suc w)
      else (OkJson (ChatJson (Some ''hello'')), Suc w))"

definition limited_transport :: "nat transport" where
  "limited_transport hostname pth key data w =
     (ErrorJson (Some ''Rate limit reached. Please try again in 2.5s''), Suc w)"

definition flaky_transport :: "nat transport" where
  "flaky_transport hostname pth key data w =
     (if w = 0 then (ErrorJson (Some ''Rate limit reached''), Suc w)
      else (OkJson (ChatJson (Some ''hello'')), Suc w))"

definition banana_transport :: "nat transport" where
  "banana_transport hostname pth key data w = (OkJson (ChatJson (Some ''banana'')), Suc w)"

definition ranking_transport :: "nat transport" where
  "ranking_transport hostname pth key data w = (OkJson (ChatJson (Some ''11, 2'')), Suc w)"

definition embedding_transport :: "nat transport" where
  "embedding_transport hostname pth key data w = (OkJson (EmbeddingJson (Some [Num 1, Num 0])), Suc w)"

definition dead_transport :: "nat transport" where
  "dead_transport hostname pth key data w = (TransportError ''ECONNREFUSED'', Suc w)"

definition idle :: "nat io" where
  "idle = \<lparr>world = 0, trace = []\<rparr>"

definition hi :: "message list" where
  "hi = [\<lparr>role = ''user'', content = Some ''hi''\<rparr>]"

text \<open>The candidates of the keyword test vector, and a list of eleven candidates.\<close>

definition candidates :: "item list" where
  "candidates = [\<lparr>text = ''buy milk'', embedding = None\<rparr>, \<lparr>text = ''call mom'', embedding = None\<rparr>,
                 \<lparr>text = ''fix the bug'', embedding = None\<rparr>]"

definition eleven :: "item list" where
  "eleven = map (\<lambda>c. \<lparr>text = [c], embedding = Some [Num 1, Num 0]\<rparr>) ''abcdefghijk''"

text \<open>A query of 502 characters whose last word starts at character 500.\<close>

definition long_query :: string where
  "long_query = replicate 499 CHR '' '' @ ''bug''"

section \<open>Properties of the number model\<close>

lemma round_half_even_int: "round_half_even (of_int k) = k"
  by (simp add: round_half_even_def)

lemma round_half_even_err: "\<bar>of_int (round_half_even y) - y\<bar> \<le> 1 / 2"
  unfolding round_half_even_def Let_def
  by (auto simp: abs_if) linarith+

lemma quantum_pos: "0 < quantum x"
  by (simp add: quantum_def)

text \<open>A dyadic number with a mantissa below \<open>2^53\<close> and an exponent in range is a double.\<close>

lemma rnd_dyadic:
  assumes m: "\<bar>m\<bar> < 2 ^ 53" and j: "- 1074 \<le> j"
    and fin: "\<bar>of_int m * 2 powr of_int j\<bar> < (2::real) ^ 1024"
  shows "rnd (of_int m * 2 powr of_int j) = Num (of_int m * 2 powr of_int j)"
proof (cases "m = 0")
  case True
  then show ?thesis by (simp add: rnd_def)
next
  case False
  let ?x = "of_int m * 2 powr of_int j :: real"
  have x0: "?x \<noteq> 0" using False by simp
  have absx: "\<bar>?x\<bar> = of_int \<bar>m\<bar> * 2 powr of_int j" by (simp add: abs_mult)
  have "of_int \<bar>m\<bar> < (2::real) ^ 53" using m by (metis of_int_less_numeral_power_cancel_iff)
  then have "\<bar>?x\<bar> < 2 ^ 53 * 2 powr of_int j"
    unfolding absx by (simp add: mult_strict_right_mono)
  also have "\<dots> = 2 powr of_int (53 + j)"
    by (simp add: powr_add powr_realpow [symmetric])
  finally have "log 2 \<bar>?x\<bar> < of_int (53 + j)"
    using x0 by (simp add: log_less_iff)
  then have "\<lfloor>log 2 \<bar>?x\<bar>\<rfloor> < 53 + j" by (simp add: floor_less_iff)
  with j have e: "binade ?x \<le> 52 + j" by (simp add: binade_def)
  define k where "k = nat (52 + j - binade ?x)"
  have kk: "of_int j - of_int (binade ?x - 52) = (real k)"
    using e by (simp add: k_def)
  have "?x / quantum ?x = of_int m * 2 powr (of_int j - of_int (binade ?x - 52))"
    by (simp add: quantum_def powr_diff)
  also have "\<dots> = of_int m * 2 ^ k"
    by (simp only: kk powr_realpow [of 2 k, simplified])
  also have "\<dots> = of_int (m * 2 ^ k)" by simp
  finally have "round_half_even (?x / quantum ?x) = m * 2 ^ k"
    by (simp only: round_half_even_int)
  then have "of_int (round_half_even (?x / quantum ?x)) * quantum ?x = of_int m * (2 ^ k * quantum ?x)"
    by simp
  also have "2 ^ k * quantum ?x = 2 powr (real k + of_int (binade ?x - 52))"
    by (simp add: quantum_def powr_add powr_realpow)
  also have "real k + of_int (binade ?x - 52) = of_int j" using kk by simp
  finally have y: "of_int (round_half_even (?x / quantum ?x)) * quantum ?x = ?x" .
  from fin have "\<not> 2 ^ 1024 \<le> ?x" and "\<not> ?x \<le> - (2 ^ 1024)" by (auto simp: abs_if split: if_splits)
  with x0 y show ?thesis by (simp add: rnd_def Let_def)
qed


lemma rnd_int: "\<bar>n\<bar> < 2 ^ 53 \<Longrightarrow> rnd (of_int n) = Num (of_int n)"
  using rnd_dyadic [of n 0] by (simp add: abs_if split: if_splits) 

lemma log2_bounds:
  assumes "0 < x"
  shows "2 powr of_int \<lfloor>log 2 x\<rfloor> \<le> x \<and> x < 2 powr of_int (\<lfloor>log 2 x\<rfloor> + 1)"
  using floor_log_eq_powr_iff [of x 2 "\<lfloor>log 2 x\<rfloor>"] assms by simp

lemma floor_log2_eq:
  assumes "0 < x" and "2 powr of_int e \<le> x" and "x < 2 powr of_int (e + 1)"
  shows "\<lfloor>log 2 x\<rfloor> = e"
  using floor_log_eq_powr_iff [of x 2 e] assms by simp

lemma scaled_error:
  assumes "0 < q"
  shows "\<bar>of_int (round_half_even (x / q)) * q - x\<bar> \<le> q / 2"
proof -
  have "of_int (round_half_even (x / q)) * q - x = (of_int (round_half_even (x / q)) - x / q) * q"
    using assms by (simp add: algebra_simps)
  then have "\<bar>of_int (round_half_even (x / q)) * q - x\<bar>
             = \<bar>of_int (round_half_even (x / q)) - x / q\<bar> * q"
    using assms by (simp add: abs_mult)
  also have "\<dots> \<le> (1 / 2) * q"
    using round_half_even_err [of "x / q"] assms by (simp add: mult_right_mono)
  finally show ?thesis by simp
qed

text \<open>Rounding inside a binade, as a computation on the scaled number.\<close>

lemma rnd_in_binade:
  assumes x: "0 < x" and lo: "2 powr of_int e \<le> x" and hi: "x < 2 powr of_int (e + 1)"
    and e: "- 1022 \<le> e" "e \<le> 1022"
  shows "rnd x = Num (of_int (round_half_even (x / 2 powr of_int (e - 52))) * 2 powr of_int (e - 52))"
proof -
  have b: "binade x = e" using floor_log2_eq [OF x lo hi] x e by (simp add: binade_def)
  then have q: "quantum x = 2 powr of_int (e - 52)" by (simp add: quantum_def)
  let ?q = "2 powr of_int (e - 52) :: real"
  let ?y = "of_int (round_half_even (x / ?q)) * ?q"
  have err: "\<bar>?y - x\<bar> \<le> ?q / 2" by (rule scaled_error) simp
  have qe: "?q \<le> (2::real) powr of_int e" by simp
  have pe: "0 < (2::real) powr of_int e" by simp
  from err have yb: "?y \<le> x + ?q / 2" and yl: "x - ?q / 2 \<le> ?y"
    by linarith+
  have e1: "(2::real) powr of_int (e + 1) = 2 * 2 powr of_int e" by (simp add: powr_add)
  have "(2::real) powr of_int (e + 1) \<le> 2 powr of_int 1023"
    by (rule powr_mono) (use e in simp_all)
  also have "\<dots> = 2 ^ 1023" by (simp add: powr_realpow [symmetric])
  finally have top: "2 * 2 powr of_int e \<le> (2::real) ^ 1023" by (simp only: e1)
  from yb qe hi e1 have "?y < 4 * 2 powr of_int e" using pe by linarith
  with top have up: "\<not> 2 ^ 1024 \<le> ?y" by simp
  from yl qe lo pe have "0 < ?y" by linarith
  moreover have "- (2 ^ 1024 :: real) < 0" by simp
  ultimately have "\<not> ?y \<le> - (2 ^ 1024)" by linarith
  with up x show ?thesis by (simp add: rnd_def q Let_def)
qed

text \<open>In the normal range a rounding is off by at most one part in \<open>2^53\<close>.\<close>

lemma rnd_normal:
  assumes lo: "2 powr (- 1022) \<le> x" and hi: "x \<le> 2 ^ 1023"
  shows "\<exists>y. rnd x = Num y \<and> \<bar>y - x\<bar> \<le> x / 2 ^ 53"
proof -
  have "(0::real) < 2 powr (- 1022)" by simp
  with lo have x: "0 < x" by linarith
  define e where "e = \<lfloor>log 2 x\<rfloor>"
  have b: "2 powr of_int e \<le> x" "x < 2 powr of_int (e + 1)"
    using log2_bounds [OF x] by (simp_all add: e_def)
  have "(- 1022 :: real) \<le> log 2 x" using lo x by (simp add: le_log_iff)
  then have el: "- 1022 \<le> e" unfolding e_def by (simp add: le_floor_iff)
  have "x < 2 powr 1024" using hi by (simp add: powr_realpow [symmetric]) 
  then have "log 2 x < 1024" using x by (simp add: log_less_iff)
  then have "e < 1024" unfolding e_def by (simp add: floor_less_iff)
  then have eh: "e \<le> 1023" by simp
  have bin: "binade x = e" using x el by (simp add: binade_def e_def)
  then have q: "quantum x = 2 powr of_int (e - 52)" by (simp add: quantum_def)
  let ?q = "2 powr of_int (e - 52) :: real"
  let ?y = "of_int (round_half_even (x / ?q)) * ?q"
  have err: "\<bar>?y - x\<bar> \<le> ?q / 2" by (rule scaled_error) simp
  have "?q = 2 powr of_int e / 2 ^ 52" by (simp add: powr_diff powr_realpow [symmetric])
  also have "\<dots> \<le> x / 2 ^ 52" using b(1) by (simp add: divide_right_mono)
  finally have "?q / 2 \<le> x / 2 ^ 53" by simp
  with err have rel: "\<bar>?y - x\<bar> \<le> x / 2 ^ 53" by linarith
  have "x / 2 ^ 53 \<le> x" using x by (simp add: field_simps)
  have small: "x / 2 ^ 53 < x" using x by (simp add: field_simps)
  from rel hi small have "?y < 2 * 2 ^ 1023" by linarith
  then have up: "\<not> 2 ^ 1024 \<le> ?y" by simp
  from rel small have "0 < ?y" by linarith
  moreover have "- (2 ^ 1024 :: real) < 0" by simp
  ultimately have "\<not> ?y \<le> - (2 ^ 1024)" by linarith
  with up x have "rnd x = Num ?y" by (simp add: rnd_def q Let_def)
  with rel show ?thesis by blast
qed

lemma round_half_even_ge: "of_int k \<le> y \<Longrightarrow> k \<le> round_half_even y"
proof -
  assume "of_int k \<le> y"
  then have "k \<le> \<lfloor>y\<rfloor>" by (simp add: le_floor_iff)
  moreover have "\<lfloor>y\<rfloor> \<le> round_half_even y" by (simp add: round_half_even_def Let_def)
  ultimately show ?thesis by simp
qed

text \<open>A number from \<open>2^1024\<close> on overflows.\<close>

lemma rnd_huge:
  assumes "2 ^ 1024 \<le> x"
  shows "rnd x = Infinity"
proof -
  have "(0::real) < 2 ^ 1024" by simp
  with assms have x: "0 < x" by linarith
  define e where "e = \<lfloor>log 2 x\<rfloor>"
  have b: "2 powr of_int e \<le> x" using log2_bounds [OF x] by (simp add: e_def)
  have "(2::real) powr of_int 1024 \<le> x" using assms by (simp add: powr_realpow [symmetric])
  then have "of_int 1024 \<le> log 2 x" using x by (simp only: le_log_iff)
  then have e1024: "1024 \<le> e" unfolding e_def by (simp add: le_floor_iff)
  then have bin: "binade x = e" using x by (simp add: binade_def e_def)
  let ?q = "2 powr of_int (e - 52) :: real"
  have q: "quantum x = ?q" by (simp add: quantum_def bin)
  have pe: "(2::real) powr of_int e = 2 ^ 52 * ?q"
    by (simp add: powr_diff powr_realpow [symmetric])
  have bq: "2 ^ 52 * ?q \<le> x" using b unfolding pe .
  have "of_int (2 ^ 52) = (2 ^ 52 * ?q) / ?q" by simp
  also have "\<dots> \<le> x / ?q" by (rule divide_right_mono [OF bq]) simp
  finally have "2 ^ 52 \<le> round_half_even (x / ?q)" by (rule round_half_even_ge)
  then have "(2::real) ^ 52 \<le> of_int (round_half_even (x / ?q))"
    by (metis of_int_le_iff of_int_numeral of_int_power)
  then have "2 ^ 52 * ?q \<le> of_int (round_half_even (x / ?q)) * ?q"
    by (simp add: mult_right_mono)
  moreover have "(2::real) powr of_int 1024 \<le> 2 powr of_int e"
    by (rule powr_mono) (use e1024 in simp_all)
  then have "(2::real) ^ 1024 \<le> 2 powr of_int e" by (simp add: powr_realpow [symmetric])
  ultimately have "2 ^ 1024 \<le> of_int (round_half_even (x / ?q)) * ?q"
    using pe by linarith
  with x show ?thesis by (simp add: rnd_def q Let_def)
qed

text \<open>A positive number up to \<open>2^-1075\<close>, half the least positive double, rounds to 0.\<close>

lemma rnd_tiny:
  assumes "0 \<le> x" and "x \<le> 1 / 2 ^ 1075"
  shows "rnd x = Num 0"
proof (cases "x = 0")
  case True
  then show ?thesis by (simp add: rnd_def)
next
  case False
  with assms have x: "0 < x" by simp
  have "x < 2 powr of_int (- 1022)"
  proof -
    have "(1 / 2 ^ 1075 :: real) < 1 / 2 ^ 1022" by simp
    also have "\<dots> = 2 powr of_int (- 1022)" by (simp add: powr_minus_divide powr_realpow [symmetric])
    finally show ?thesis using assms by simp
  qed
  then have "log 2 x < of_int (- 1022)" using x by (simp only: log_less_iff)
  then have "\<lfloor>log 2 x\<rfloor> < - 1022" by (simp add: floor_less_iff)
  then have bin: "binade x = - 1022" using x by (simp add: binade_def)
  have q: "quantum x = 1 / 2 ^ 1074"
    by (simp add: quantum_def bin powr_minus_divide powr_realpow [symmetric])
  have xq: "x / quantum x = x * 2 ^ 1074" by (simp add: q)
  have "x * 2 ^ 1074 \<le> (1 / 2 ^ 1075) * 2 ^ 1074" using assms by (simp add: mult_right_mono)
  then have le: "x * 2 ^ 1074 \<le> 1 / 2" by simp
  have pos: "0 < x * 2 ^ 1074" using x by simp
  from le pos have fl: "\<lfloor>x * 2 ^ 1074\<rfloor> = 0" by (simp add: floor_eq_iff)
  have "round_half_even (x * 2 ^ 1074) = 0"
    using le fl by (simp add: round_half_even_def Let_def)
  then show ?thesis using False by (simp add: rnd_def Let_def xq)
qed

lemma rnd_0 [simp]: "rnd 0 = Num 0"
  by (simp add: rnd_def)

lemma rnd_1 [simp]: "rnd 1 = Num 1"
  using rnd_int [of 1] by simp

lemma rnd_numeral [simp]: "(numeral n :: int) < 2 ^ 53 \<Longrightarrow> rnd (numeral n) = Num (numeral n)"
  using rnd_int [of "numeral n"] by simp

lemma rnd_half: "\<bar>n\<bar> < 2 ^ 53 \<Longrightarrow> rnd (of_int n / 2) = Num (of_int n / 2)"
  using rnd_dyadic [of n "- 1"] by (simp add: powr_minus_divide abs_if split: if_splits)

lemma rnd_power2: "n \<le> 1023 \<Longrightarrow> rnd (2 ^ n) = Num (2 ^ n)"
proof -
  assume n: "n \<le> 1023"
  have "(2::real) ^ n < 2 ^ 1024" by (rule power_strict_increasing) (use n in simp_all)
  then show ?thesis
    using rnd_dyadic [of 1 "int n"] by (simp add: powr_realpow)
qed

lemma rnd_backoff: "k \<le> 3 \<Longrightarrow> rnd (1000 * 2 ^ k) = Num (1000 * 2 ^ k)"
proof -
  assume k: "k \<le> 3"
  have "(2::real) ^ k \<le> 2 ^ 3" by (rule power_increasing) (use k in simp_all)
  then have "\<bar>1000 * (2::real) ^ k\<bar> < 2 ^ 1024" by simp
  then show ?thesis
    using rnd_dyadic [of 1000 "int k"] by (simp add: powr_realpow)
qed

lemma fadd_simps [simp]:
  "fadd (Num a) (Num b) = rnd (a + b)"
  "fadd NaN y = NaN" "fadd x NaN = NaN"
  "fadd Infinity (Num b) = Infinity" "fadd (Num a) Infinity = Infinity"
  "fadd Infinity Infinity = Infinity" "fadd Infinity NegInfinity = NaN"
  "fadd NegInfinity Infinity = NaN" "fadd NegInfinity NegInfinity = NegInfinity"
  "fadd NegInfinity (Num b) = NegInfinity" "fadd (Num a) NegInfinity = NegInfinity"
  by (simp_all add: fadd_def split: jsnum.splits)

lemma fmul_simps [simp]:
  "fmul (Num a) (Num b) = rnd (a * b)"
  "fmul NaN y = NaN" "fmul x NaN = NaN"
  "fmul (Num a) Infinity = (if a = 0 then NaN else if 0 < a then Infinity else NegInfinity)"
  "fmul (Num a) NegInfinity = (if a = 0 then NaN else if 0 < a then NegInfinity else Infinity)"
  "fmul Infinity (Num b) = (if b = 0 then NaN else if 0 < b then Infinity else NegInfinity)"
  "fmul NegInfinity (Num b) = (if b = 0 then NaN else if 0 < b then NegInfinity else Infinity)"
  "fmul Infinity Infinity = Infinity" "fmul NegInfinity NegInfinity = Infinity"
  "fmul Infinity NegInfinity = NegInfinity" "fmul NegInfinity Infinity = NegInfinity"
  by (simp_all add: fmul_def split: jsnum.splits)

lemma fdiv_simps [simp]:
  "fdiv NaN y = NaN" "fdiv x NaN = NaN"
  "fdiv (Num a) (Num b) =
     (if b = 0 then (if a = 0 then NaN else if 0 < a then Infinity else NegInfinity)
      else rnd (a / b))"
  "fdiv (Num a) Infinity = Num 0" "fdiv (Num a) NegInfinity = Num 0"
  "fdiv Infinity (Num b) = (if 0 \<le> b then Infinity else NegInfinity)"
  "fdiv NegInfinity (Num b) = (if 0 \<le> b then NegInfinity else Infinity)"
  "fdiv Infinity Infinity = NaN" "fdiv Infinity NegInfinity = NaN"
  "fdiv NegInfinity Infinity = NaN" "fdiv NegInfinity NegInfinity = NaN"
  by (simp_all add: fdiv_def split: jsnum.splits)

lemma fsqrt_simps [simp]:
  "fsqrt (Num a) = (if a < 0 then NaN else rnd (sqrt a))"
  "fsqrt Infinity = Infinity" "fsqrt NegInfinity = NaN" "fsqrt NaN = NaN"
  by (simp_all add: fsqrt_def)

text \<open>Three roundings, each off by at most one part in \<open>1/u\<close>.\<close>

lemma rel_factor:
  fixes x :: real
  assumes "0 < x" and "\<bar>y - x\<bar> \<le> x * u"
  shows "\<exists>a. y = x * a \<and> 1 - u \<le> a \<and> a \<le> 1 + u"
proof -
  have e: "x * (1 - u) = x - x * u" "x * (1 + u) = x + x * u" by (simp_all add: algebra_simps)
  from assms(2) have "x * (1 - u) \<le> y" and "y \<le> x * (1 + u)"
    unfolding e by linarith+
  then have "1 - u \<le> y / x" and "y / x \<le> 1 + u"
    using assms(1) by (simp_all add: pos_le_divide_eq pos_divide_le_eq mult.commute)
  moreover have "y = x * (y / x)" using assms(1) by simp
  ultimately show ?thesis by blast
qed

lemma three_roundings:
  fixes u :: real
  assumes u: "0 \<le> u" "u \<le> 1 / 100"
    and a: "1 - u \<le> a" "a \<le> 1 + u"
    and b: "1 - u \<le> b" "b \<le> 1 + u"
    and c: "1 - u \<le> c" "c \<le> 1 + u"
  shows "\<bar>c / (a * a * b) - 1\<bar> \<le> 8 * u"
proof -
  have uu: "u * u \<le> u / 100" using u mult_left_mono [of u "1 / 100" u] by simp
  have uu0: "0 \<le> u * u" by simp
  have lo: "0 < 1 - u" using u by simp
  have a0: "0 \<le> a" and b0: "0 \<le> b" using a b lo by linarith+
  have aa_lo: "(1 - u) * (1 - u) \<le> a * a"
    by (rule mult_mono [OF a(1) a(1)]) (use a0 lo in simp_all)
  have aa_hi: "a * a \<le> (1 + u) * (1 + u)"
    by (rule mult_mono [OF a(2) a(2)]) (use a0 u in simp_all)
  have d_lo: "(1 - u) * (1 - u) * (1 - u) \<le> a * a * b"
    by (rule mult_mono [OF aa_lo b(1)]) (use lo in simp_all)
  have d_hi: "a * a * b \<le> (1 + u) * (1 + u) * (1 + u)"
    by (rule mult_mono [OF aa_hi b(2)]) (use b0 u in simp_all)
  have uuu: "0 \<le> u * u * u" using u by simp
  have uuu_hi: "u * u * u \<le> u * u" using u mult_left_mono [of u 1 "u * u"] by simp
  have "(1 - u) * (1 - u) * (1 - u) = 1 - 3 * u + 3 * (u * u) - u * u * u"
    by (simp add: algebra_simps)
  then have "1 - 3 * u \<le> (1 - u) * (1 - u) * (1 - u)"
    using uu0 uuu_hi by linarith
  with d_lo have D_lo: "1 - 3 * u \<le> a * a * b" by linarith
  have "(1 + u) * (1 + u) * (1 + u) = 1 + 3 * u + 3 * (u * u) + u * u * u"
    by (simp add: algebra_simps)
  then have "(1 + u) * (1 + u) * (1 + u) \<le> 1 + 4 * u"
    using uu uuu_hi u by linarith
  with d_hi have D_hi: "a * a * b \<le> 1 + 4 * u" by linarith
  have D0: "0 < a * a * b" using D_lo u by linarith
  have "(1 + 8 * u) * (1 - 3 * u) \<le> (1 + 8 * u) * (a * a * b)"
    using D_lo u by (intro mult_left_mono) simp_all
  moreover have "(1 + 8 * u) * (1 - 3 * u) = 1 + 5 * u - 24 * (u * u)"
    by (simp add: algebra_simps)
  then have "1 + u \<le> (1 + 8 * u) * (1 - 3 * u)"
    using uu u by linarith
  ultimately have "c \<le> (1 + 8 * u) * (a * a * b)" using c by linarith
  then have up: "c / (a * a * b) \<le> 1 + 8 * u" using D0 by (simp add: pos_divide_le_eq)
  have "(1 - 8 * u) * (a * a * b) \<le> (1 - 8 * u) * (1 + 4 * u)"
    using D_hi u by (intro mult_left_mono) simp_all
  moreover have "(1 - 8 * u) * (1 + 4 * u) = 1 - 4 * u - 32 * (u * u)"
    by (simp add: algebra_simps)
  then have "(1 - 8 * u) * (1 + 4 * u) \<le> 1 - u"
    using uu0 u by linarith
  ultimately have "(1 - 8 * u) * (a * a * b) \<le> c" using c by linarith
  then have low: "1 - 8 * u \<le> c / (a * a * b)" using D0 by (simp add: pos_le_divide_eq)
  from up low show ?thesis by (simp add: abs_le_iff)
qed


lemma rnd_normal_factor:
  assumes lo: "1 / 2 ^ 1022 \<le> x" and hi: "x \<le> 2 ^ 1023"
  shows "\<exists>a. rnd x = Num (x * a) \<and> 1 - 1 / 2 ^ 53 \<le> a \<and> a \<le> 1 + 1 / 2 ^ 53"
proof -
  have "(2::real) powr (- 1022) = 1 / 2 ^ 1022"
    using powr_realpow [of 2 1022] by (simp add: powr_minus_divide)
  with lo have lo': "2 powr (- 1022) \<le> x" by simp
  have "(0::real) < 1 / 2 ^ 1022" by simp
  with lo have x: "0 < x" by linarith
  from rnd_normal [OF lo' hi] obtain y where y: "rnd x = Num y" and e: "\<bar>y - x\<bar> \<le> x / 2 ^ 53"
    by blast
  from e have "\<bar>y - x\<bar> \<le> x * (1 / 2 ^ 53)" by simp
  from rel_factor [OF x this] y show ?thesis by blast
qed

lemma rnd_inverse_power2:
  assumes "n \<le> 1074"
  shows "rnd (1 / 2 ^ n) = Num (1 / 2 ^ n)"
proof -
  have e': "(2::real) powr (- real n) = 1 / 2 ^ n"
    using powr_realpow [of 2 n] by (simp add: powr_minus_divide)
  then have e: "(2::real) powr of_int (- int n) = 1 / 2 ^ n" by simp
  have "(1 / 2 ^ n :: real) \<le> 1" by simp
  moreover have "(1::real) < 2 ^ 1024" by simp
  ultimately have "(1 / 2 ^ n :: real) < 2 ^ 1024" by (rule le_less_trans)
  then have "\<bar>of_int 1 * 2 powr of_int (- int n)\<bar> < (2::real) ^ 1024"
    by (simp add: e')
  moreover have "- 1074 \<le> - int n" using assms by simp
  ultimately have "rnd (of_int 1 * 2 powr of_int (- int n)) = Num (of_int 1 * 2 powr of_int (- int n))"
    by (intro rnd_dyadic) simp_all
  then show ?thesis unfolding e by simp
qed

section \<open>Properties of the budget estimator\<close>

text \<open>
  C6. For every text \<open>T\<close> and bound \<open>N\<close>, \<open>truncateText\<close> returns \<open>T\<close> unchanged when
  its length is at most \<open>N\<close>, and otherwise the first \<open>N\<close> characters of \<open>T\<close> followed by
  the marker; the result is never longer than \<open>N\<close> plus the length of the marker; and
  truncating the result again with the same bound changes nothing.
\<close>

theorem truncateText_bounded_idempotent:
  "(length T \<le> N \<longrightarrow> truncateText T N = T)
   \<and> (N < length T \<longrightarrow> truncateText T N = take N T @ ''...'')
   \<and> length (truncateText T N) \<le> N + length ''...''
   \<and> truncateText (truncateText T N) N = truncateText T N"
  by (auto simp: truncateText_def)

theorem truncateText_bounded_idempotent_witness:
  "(5::nat) < length ''hello world''
   \<and> truncateText ''hello world'' 5 = ''hello...''
   \<and> length (truncateText ''hello world'' 5) \<le> 5 + length ''...''
   \<and> truncateText (truncateText ''hello world'' 5) 5 = truncateText ''hello world'' 5"
  using truncateText_bounded_idempotent [of "''hello world''" 5]
  by (simp add: truncateText_def)

section \<open>Properties of the heuristic classifier\<close>

lemmas classify_defs = fallbackCategorize_def truthy_def startsWith_def all_digits_def
  js_trim_def is_space_def is_digit_def

text \<open>
  C8. The heuristic classifier is a function of the text, its rules are tried in order,
  and on the test vectors it gives: an address with \<open>@\<close> and a dot is an email, a text
  starting with \<open>https://\<close> a link, digits a number, a text with a brace json, a text
  with angle brackets html, a text with \<open>const\<close> code, a text starting with \<open>git\<close> a
  command, and a text that no rule matches a note. Where several rules match, the first
  one decides: an address inside braces after \<open>git\<close> is an email, and an XML
  declaration with a closing bracket is html.
\<close>

theorem fallbackCategorize_test_vectors:
  \<open>fallbackCategorize (Some ''test@example.com'') = ''email''
   \<and> fallbackCategorize (Some ''https://example.com'') = ''link''
   \<and> fallbackCategorize (Some ''12345'') = ''number''
   \<and> fallbackCategorize (Some ''{"a":1}'') = ''json''
   \<and> fallbackCategorize (Some ''<div>hi</div>'') = ''html''
   \<and> fallbackCategorize (Some ''const x = 1'') = ''code''
   \<and> fallbackCategorize (Some ''git status'') = ''command''
   \<and> fallbackCategorize (Some ''just a note'') = ''note''
   \<and> fallbackCategorize (Some ''git log {a@b.c}'') = ''email''
   \<and> fallbackCategorize (Some ''<?xml version=1?><a/>'') = ''html''\<close>
  by (simp add: classify_defs)

text \<open>
  C9. For every input, absent or a string, the heuristic classifier returns one of the
  ten labels email, link, number, json, html, code, xml, command, note and other. It
  never returns password, and it returns other exactly for the absent and the empty
  text: on a text that is not empty, password and other are out of reach.
\<close>

theorem fallbackCategorize_labels:
  "fallbackCategorize t \<in> set [''email'', ''link'', ''number'', ''json'', ''html'', ''code'', ''xml'',
                               ''command'', ''note'', ''other'']
   \<and> fallbackCategorize t \<noteq> ''password''
   \<and> (fallbackCategorize t = ''other'') = (t = None \<or> t = Some [])"
  by (cases t) (simp_all add: fallbackCategorize_def truthy_def Let_def)

theorem fallbackCategorize_labels_witness:
  "fallbackCategorize (Some ''<?xml'') = ''xml''
   \<and> fallbackCategorize (Some ''<?xml'') \<noteq> ''password''
   \<and> fallbackCategorize (Some ''<?xml'') \<noteq> ''other''
   \<and> fallbackCategorize None = ''other'' \<and> fallbackCategorize (Some []) = ''other''"
  using fallbackCategorize_labels [of "Some ''<?xml''"] fallbackCategorize_labels [of None]
    fallbackCategorize_labels [of "Some []"]
  by (simp add: classify_defs)

section \<open>Properties of the provider gateway\<close>

lemmas char_eval = char_of_def bit_Suc_0_iff

lemmas wait_defs = match_wait_here_def toLowerCase_def lower_char_def is_num_char_def is_digit_def

lemma makeRequest_no_key:
  "\<not> truthy (if p = ''groq'' then groqApiKey svc else openaiApiKey svc) \<Longrightarrow>
   makeRequest svc tr ep d p k s
   = (Inl (Error ((if p = ''groq'' then ''Groq'' else ''OpenAI'') @ '' API key not set.'')), s)"
  by (subst makeRequest.simps) (simp add: Let_def)

lemma io_update: "(s :: 'w io)\<lparr>world := a, trace := b\<rparr> = \<lparr>world = a, trace = b\<rparr>"
  by (cases s) simp

text \<open>
  One step of \<open>makeRequest\<close> with a credential: the request goes out, and either its
  answer settles the call or a timer is set and the call starts again one retry later.
\<close>

lemma makeRequest_step:
  assumes key: "truthy (api_key svc p)"
  shows "makeRequest svc tr ep d p k s =
     (let r = exchange svc tr ep d p (world s) in
      if rate_limited (fst r) \<and> k < 3
      then makeRequest svc tr ep d p (k + 1)
             \<lparr>world = snd r,
              trace = trace s @ [sent svc ep d p, SetTimeout (waitTime (error_text (fst r)) k)]\<rparr>
      else (settled (fst r), \<lparr>world = snd r, trace = trace s @ [sent svc ep d p]\<rparr>))"
proof -
  define h where "h = (if p = ''groq'' then ''api.groq.com'' else ''api.openai.com'')"
  define pa where "pa = (if p = ''groq'' then ''/openai/v1'' @ ep else ep)"
  define ky where "ky = the (if p = ''groq'' then groqApiKey svc else openaiApiKey svc)"
  have ex: "exchange svc tr ep d p = tr h pa ky d"
    by (simp add: exchange_def api_host_def api_path_def api_key_def h_def pa_def ky_def)
  have se: "sent svc ep d p = Post h pa ky d"
    by (simp add: sent_def api_host_def api_path_def api_key_def h_def pa_def ky_def)
  have key': "truthy (if p = ''groq'' then groqApiKey svc else openaiApiKey svc)"
    using key by (simp add: api_key_def)
  have unf: "makeRequest svc tr ep d p k s =
      (let res = tr h pa ky d (world s);
           s1 = s\<lparr>world := snd res, trace := trace s @ [Post h pa ky d]\<rparr>
       in case fst res of
            TransportError m \<Rightarrow> (Inl (Error m), s1)
          | Unparseable \<Rightarrow> (Inl (Error ''Failed to parse AI response''), s1)
          | OkJson json \<Rightarrow> (Inr json, s1)
          | ErrorJson m \<Rightarrow>
              (let error = Error (or_else m ''API error'')
               in if isRateLimitError error \<and> k < 3
                  then makeRequest svc tr ep d p (k + 1)
                         (s1\<lparr>trace := trace s1 @ [SetTimeout (waitTime (message error) k)]\<rparr>)
                  else (Inl error, s1)))"
    using key'
    by (subst makeRequest.simps) (simp only: Let_def h_def pa_def ky_def if_True if_False not_True_eq_False not_False_eq_True simp_thms)
  show ?thesis
    unfolding unf ex se
    by (cases "fst (tr h pa ky d (world s))")
       (simp_all add: Let_def rate_limited_def settled_def error_text_def io_update)
qed

lemma answer_0: "answer ask 0 w = fst (ask w)"
  by (simp add: answer_def)

lemma answer_Suc: "answer ask (Suc i) w = answer ask i (snd (ask w))"
  by (simp add: answer_def)

text \<open>
  A call of \<open>makeRequest\<close> at retry count \<open>k\<close>, unrolled: \<open>n\<close> rate-limited answers,
  each followed by its timer, and one answer more, which settles the call.
\<close>

lemma makeRequest_unrolled:
  assumes key: "truthy (api_key svc p)"
  shows "k \<le> 3 \<Longrightarrow>
         \<exists>n \<le> 3 - k.
           (\<forall>i < n. rate_limited (answer (exchange svc tr ep d p) i (world s)))
           \<and> (n < 3 - k \<longrightarrow> \<not> rate_limited (answer (exchange svc tr ep d p) n (world s)))
           \<and> makeRequest svc tr ep d p k s
             = (settled (answer (exchange svc tr ep d p) n (world s)),
                \<lparr>world = world_before (exchange svc tr ep d p) (Suc n) (world s),
                 trace = trace s
                   @ concat (map (\<lambda>i. [sent svc ep d p,
                                        SetTimeout (waitTime (error_text
                                          (answer (exchange svc tr ep d p) i (world s))) (k + i))])
                               [0..<n])
                   @ [sent svc ep d p]\<rparr>)"
proof (induction "3 - k" arbitrary: k s)
  case 0
  then have k: "\<not> k < 3" by simp
  have "makeRequest svc tr ep d p k s
        = (settled (answer (exchange svc tr ep d p) 0 (world s)),
           \<lparr>world = world_before (exchange svc tr ep d p) (Suc 0) (world s),
            trace = trace s @ [sent svc ep d p]\<rparr>)"
    using k by (simp add: makeRequest_step [OF key] Let_def answer_0)
  then show ?case by (intro exI [of _ 0]) (use 0 in simp)
next
  case (Suc m)
  then have k: "k < 3" and m: "m = 3 - (k + 1)" and k1: "k + 1 \<le> 3" by simp_all
  let ?ask = "exchange svc tr ep d p"
  show ?case
  proof (cases "rate_limited (fst (?ask (world s)))")
    case False
    have "makeRequest svc tr ep d p k s
          = (settled (answer ?ask 0 (world s)),
             \<lparr>world = world_before ?ask (Suc 0) (world s), trace = trace s @ [sent svc ep d p]\<rparr>)"
      using False by (simp add: makeRequest_step [OF key] Let_def answer_0)
    moreover have "\<not> rate_limited (answer ?ask 0 (world s))"
      using False by (simp add: answer_0)
    ultimately show ?thesis by (intro exI [of _ 0]) simp
  next
    case True
    define s2 where "s2 = \<lparr>world = snd (?ask (world s)),
        trace = trace s @ [sent svc ep d p, SetTimeout (waitTime (error_text (fst (?ask (world s)))) k)]\<rparr>"
    have step: "makeRequest svc tr ep d p k s = makeRequest svc tr ep d p (k + 1) s2"
      using True k by (simp add: makeRequest_step [OF key, of tr ep d k s] Let_def s2_def)
    have w2: "world s2 = snd (?ask (world s))" by (simp add: s2_def)
    from Suc.hyps(1) [OF m k1, of s2] obtain n where
      n: "n \<le> 3 - (k + 1)"
      and lim: "\<forall>i < n. rate_limited (answer ?ask i (world s2))"
      and stop: "n < 3 - (k + 1) \<longrightarrow> \<not> rate_limited (answer ?ask n (world s2))"
      and res: "makeRequest svc tr ep d p (k + 1) s2
             = (settled (answer ?ask n (world s2)),
                \<lparr>world = world_before ?ask (Suc n) (world s2),
                 trace = trace s2
                   @ concat (map (\<lambda>i. [sent svc ep d p,
                                        SetTimeout (waitTime (error_text (answer ?ask i (world s2)))
                                          (k + 1 + i))])
                               [0..<n])
                   @ [sent svc ep d p]\<rparr>)"
      by blast
    have a: "\<And>i. answer ?ask i (world s2) = answer ?ask (Suc i) (world s)"
      by (simp add: answer_Suc w2)
    have "Suc n \<le> 3 - k" using n k by simp
    moreover have "\<forall>i < Suc n. rate_limited (answer ?ask i (world s))"
    proof (intro allI impI)
      fix i assume i: "i < Suc n"
      show "rate_limited (answer ?ask i (world s))"
      proof (cases i)
        case 0
        then show ?thesis using True by (simp add: answer_0)
      next
        case (Suc j)
        with i lim show ?thesis by (simp add: a [symmetric])
      qed
    qed
    moreover have "Suc n < 3 - k \<longrightarrow> \<not> rate_limited (answer ?ask (Suc n) (world s))"
      using stop by (simp add: a)
    moreover have "[0..<Suc n] = 0 # map Suc [0..<n]"
      by (simp add: upt_conv_Cons map_Suc_upt del: upt_Suc)
    then have "makeRequest svc tr ep d p k s
             = (settled (answer ?ask (Suc n) (world s)),
                \<lparr>world = world_before ?ask (Suc (Suc n)) (world s),
                 trace = trace s
                   @ concat (map (\<lambda>i. [sent svc ep d p,
                                        SetTimeout (waitTime (error_text (answer ?ask i (world s)))
                                          (k + i))])
                               [0..<Suc n])
                   @ [sent svc ep d p]\<rparr>)"
      unfolding step res
      by (simp only: a) (simp add: s2_def answer_0 comp_def del: upt_Suc)
    ultimately show ?thesis by (intro exI [of _ "Suc n"]) blast
  qed
qed

subsection \<open>The wait advised in a message\<close>

lemma match_wait_here_Nil: "match_wait_here [] = None"
  by (simp add: match_wait_here_def toLowerCase_def)

lemma find_wait_SomeD:
  "find_wait msg = Some r \<Longrightarrow> \<exists>i \<le> length msg. match_wait_here (drop i msg) = Some r"
proof (induction msg)
  case Nil
  then show ?case by simp
next
  case (Cons c cs)
  show ?case
  proof (cases "match_wait_here (c # cs)")
    case None
    with Cons.prems have "find_wait cs = Some r" by simp
    with Cons.IH obtain i where "i \<le> length cs" "match_wait_here (drop i cs) = Some r" by blast
    then have "Suc i \<le> length (c # cs) \<and> match_wait_here (drop (Suc i) (c # cs)) = Some r" by simp
    then show ?thesis by blast
  next
    case (Some a)
    with Cons.prems have "match_wait_here (drop 0 (c # cs)) = Some r" by simp
    then show ?thesis by blast
  qed
qed

lemma find_wait_SomeI:
  "match_wait_here (drop i msg) = Some r \<Longrightarrow> find_wait msg \<noteq> None"
proof (induction msg arbitrary: i)
  case Nil
  then show ?case by (simp add: match_wait_here_Nil)
next
  case (Cons c cs)
  show ?case
  proof (cases i)
    case 0
    with Cons.prems show ?thesis by simp
  next
    case (Suc j)
    with Cons.prems have "match_wait_here (drop j cs) = Some r" by simp
    with Cons.IH have "find_wait cs \<noteq> None" by blast
    then show ?thesis by (auto split: option.splits)
  qed
qed

lemma find_wait_skip:
  "\<forall>i < length pre. match_wait_here (drop i (pre @ rest)) = None \<Longrightarrow>
   find_wait (pre @ rest) = find_wait rest"
proof (induction pre)
  case Nil
  then show ?case by simp
next
  case (Cons c pre)
  from Cons.prems have h0: "match_wait_here ((c # pre) @ rest) = None" by force
  have "\<forall>i < length pre. match_wait_here (drop i (pre @ rest)) = None"
  proof (intro allI impI)
    fix i assume "i < length pre"
    then have "Suc i < length (c # pre)" by simp
    with Cons.prems have "match_wait_here (drop (Suc i) ((c # pre) @ rest)) = None" by blast
    then show "match_wait_here (drop i (pre @ rest)) = None" by simp
  qed
  with Cons.IH have "find_wait (pre @ rest) = find_wait rest" by blast
  with h0 show ?case by simp
qed

lemma num_char_not_s: "is_num_char c \<Longrightarrow> lower_char c \<noteq> CHR ''s''"
  by (auto simp: is_num_char_def is_digit_def lower_char_def)

lemma match_wait_hereD:
  assumes "match_wait_here s = Some run"
  shows "\<exists>w c post. s = w @ run @ c # post \<and> toLowerCase w = ''try again in '' \<and> run \<noteq> []
           \<and> list_all is_num_char run \<and> lower_char c = CHR ''s''"
proof -
  let ?rest = "dropWhile is_num_char (drop 13 s)"
  from assms have w: "toLowerCase (take 13 s) = ''try again in ''"
    and run: "run = takeWhile is_num_char (drop 13 s)" and ne: "run \<noteq> []"
    and rest: "?rest \<noteq> []" and c: "lower_char (hd ?rest) = CHR ''s''"
    by (auto simp: match_wait_here_def Let_def split: if_splits)
  have "s = take 13 s @ drop 13 s" by simp
  also have "drop 13 s = run @ ?rest" by (simp add: run)
  also from rest have "?rest = hd ?rest # tl ?rest" by simp
  finally have "s = take 13 s @ run @ hd ?rest # tl ?rest" .
  moreover have "list_all is_num_char run"
    by (simp add: run list_all_iff) (meson set_takeWhileD)
  ultimately show ?thesis using w ne c by blast
qed

lemma match_wait_hereI:
  assumes w: "toLowerCase w = ''try again in ''" and ne: "run \<noteq> []"
    and run: "list_all is_num_char run" and c: "lower_char c = CHR ''s''"
  shows "match_wait_here (w @ run @ c # post) = Some run"
proof -
  from w have "length (toLowerCase w) = 13" by simp
  then have len: "length w = 13" by (simp add: toLowerCase_def)
  from c have nc: "\<not> is_num_char c" using num_char_not_s by blast
  from run have all: "\<forall>x \<in> set run. is_num_char x" by (simp add: list_all_iff)
  have tw: "takeWhile is_num_char (run @ c # post) = run"
    using all nc by (simp add: takeWhile_append2)
  have dw: "dropWhile is_num_char (run @ c # post) = c # post"
    using all nc by (simp add: dropWhile_append2)
  show ?thesis
    using len w ne c tw dw by (simp add: match_wait_here_def)
qed

lemma extractWaitTime_None_iff:
  "(extractWaitTime msg = None) =
   (\<not> (\<exists>pre w run c post. msg = pre @ w @ run @ c # post \<and> toLowerCase w = ''try again in ''
          \<and> run \<noteq> [] \<and> list_all is_num_char run \<and> lower_char c = CHR ''s''))"
proof
  assume none: "extractWaitTime msg = None"
  show "\<not> (\<exists>pre w run c post. msg = pre @ w @ run @ c # post \<and> toLowerCase w = ''try again in ''
          \<and> run \<noteq> [] \<and> list_all is_num_char run \<and> lower_char c = CHR ''s'')"
  proof
    assume "\<exists>pre w run c post. msg = pre @ w @ run @ c # post \<and> toLowerCase w = ''try again in ''
          \<and> run \<noteq> [] \<and> list_all is_num_char run \<and> lower_char c = CHR ''s''"
    then obtain pre w run c post where msg: "msg = pre @ w @ run @ c # post"
      and h: "toLowerCase w = ''try again in ''" "run \<noteq> []" "list_all is_num_char run"
        "lower_char c = CHR ''s''" by blast
    from h have "match_wait_here (w @ run @ c # post) = Some run" by (rule match_wait_hereI)
    then have "match_wait_here (drop (length pre) msg) = Some run" by (simp add: msg)
    then have "find_wait msg \<noteq> None" by (rule find_wait_SomeI)
    with none show False by (auto simp: extractWaitTime_def split: option.splits)
  qed
next
  assume no: "\<not> (\<exists>pre w run c post. msg = pre @ w @ run @ c # post \<and> toLowerCase w = ''try again in ''
          \<and> run \<noteq> [] \<and> list_all is_num_char run \<and> lower_char c = CHR ''s'')"
  show "extractWaitTime msg = None"
  proof (cases "find_wait msg")
    case None
    then show ?thesis by (simp add: extractWaitTime_def)
  next
    case (Some run)
    then obtain i where "i \<le> length msg" and "match_wait_here (drop i msg) = Some run"
      using find_wait_SomeD by blast
    then obtain w c post where "drop i msg = w @ run @ c # post"
      and h: "toLowerCase w = ''try again in ''" "run \<noteq> []" "list_all is_num_char run"
        "lower_char c = CHR ''s''"
      using match_wait_hereD by blast
    then have "msg = take i msg @ w @ run @ c # post"
      by (metis append_take_drop_id)
    with h no show ?thesis by blast
  qed
qed

lemma parse_2_5: "parseFloat ''2.5'' = Num (5 / 2)"
  using rnd_half [of 5] by (simp add: parseFloat_def is_digit_def dec_val_def digit_val_def)

lemma wait_2_5: "js_ceil (fmul (parseFloat ''2.5'') (Num 1000)) = Num 2500"
  by (simp add: parse_2_5 js_ceil_def)

lemma extractWaitTime_leftmost:
  assumes w: "toLowerCase w = ''try again in ''" and c: "lower_char c = CHR ''s''"
    and first: "\<forall>i < length pre. match_wait_here (drop i (pre @ w @ ''2.5'' @ c # post)) = None"
  shows "extractWaitTime (pre @ w @ ''2.5'' @ c # post) = Some (Num 2500)"
proof -
  have "find_wait (pre @ w @ ''2.5'' @ c # post) = find_wait (w @ ''2.5'' @ c # post)"
    using first by (rule find_wait_skip)
  moreover have m: "match_wait_here (w @ ''2.5'' @ c # post) = Some ''2.5''"
    by (rule match_wait_hereI [OF w _ _ c]) (simp_all add: is_num_char_def is_digit_def)
  have "w \<noteq> []" using w by (auto simp: toLowerCase_def)
  then obtain x xs where "w @ ''2.5'' @ c # post = x # xs" by (cases w) auto
  with m have "find_wait (w @ ''2.5'' @ c # post) = Some ''2.5''" by simp
  ultimately show ?thesis by (simp add: extractWaitTime_def wait_2_5)
qed

lemma find_wait_vector: "find_wait ''Please try again in 2.5s'' = Some ''2.5''"
  by (simp add: wait_defs char_eval)

lemma extractWaitTime_vector: "extractWaitTime ''Please try again in 2.5s'' = Some (Num 2500)"
  unfolding extractWaitTime_def find_wait_vector by (simp add: wait_2_5)

text \<open>
  The product with 1000 is rounded before the ceiling is taken. The double nearest to
  4.03 is a little above it, its product with 1000 rounds to the double next above
  4030, and the wait is 4031 ms, where the decimal numbers give 4030.
\<close>

lemma parse_4_03: "parseFloat ''4.03'' = Num (4537376624575775 / 2 ^ 50)"
proof -
  have "rnd (403 / 100)
        = Num (of_int (round_half_even ((403 / 100) / 2 powr of_int (2 - 52))) * 2 powr of_int (2 - 52))"
    by (rule rnd_in_binade) simp_all
  also have "2 powr of_int (2 - 52) = (1 / 2 ^ 50 :: real)"
    using powr_realpow [of 2 50] by (simp add: powr_minus_divide)
  also have "round_half_even ((403 / 100) / (1 / 2 ^ 50)) = 4537376624575775"
    by (simp add: round_half_even_def Let_def)
  finally have "rnd (403 / 100) = Num (4537376624575775 / 2 ^ 50)" by simp
  then show ?thesis
    by (simp add: parseFloat_def is_digit_def dec_val_def digit_val_def)
qed

lemma times_4_03: "fmul (Num (4537376624575775 / 2 ^ 50)) (Num 1000) = Num (8862063719874561 / 2 ^ 41)"
proof -
  let ?x = "4537376624575775 / 2 ^ 50 * 1000 :: real"
  have "rnd ?x
        = Num (of_int (round_half_even (?x / 2 powr of_int (11 - 52))) * 2 powr of_int (11 - 52))"
    by (rule rnd_in_binade) simp_all
  also have "2 powr of_int (11 - 52) = (1 / 2 ^ 41 :: real)"
    using powr_realpow [of 2 41] by (simp add: powr_minus_divide)
  also have "round_half_even (?x / (1 / 2 ^ 41)) = 8862063719874561"
    by (simp add: round_half_even_def Let_def)
  finally show ?thesis by simp
qed

lemma wait_4_03: "js_ceil (fmul (parseFloat ''4.03'') (Num 1000)) = Num 4031"
proof -
  have "\<lceil>8862063719874561 / 2 ^ 41 :: real\<rceil> = 4031"
    by (simp add: ceiling_eq_iff)
  then show ?thesis
    unfolding parse_4_03 times_4_03 js_ceil_def by simp
qed

lemma find_wait_4_03: "find_wait ''try again in 4.03s'' = Some ''4.03''"
  by (simp add: wait_defs char_eval)

lemma extractWaitTime_rounds: "extractWaitTime ''try again in 4.03s'' = Some (Num 4031)"
  unfolding extractWaitTime_def find_wait_4_03 by (simp add: wait_4_03)

lemma backoff_exact: "k \<le> 3 \<Longrightarrow> fmul (Num 1000) (rnd (2 ^ k)) = Num (1000 * 2 ^ k)"
  by (simp add: rnd_power2 rnd_backoff)

lemma waitTime_advised:
  "extractWaitTime m = Some v \<Longrightarrow> num_truthy v \<Longrightarrow> waitTime m k = v"
  by (simp add: waitTime_def)

lemma waitTime_backoff:
  assumes "k \<le> 3"
    and "extractWaitTime m = None \<or> (\<exists>v. extractWaitTime m = Some v \<and> \<not> num_truthy v)"
  shows "waitTime m k = Num (1000 * 2 ^ k)"
  using assms by (auto simp: waitTime_def backoff_exact)

text \<open>
  C3, the claim as stated fails. \<open>extractWaitTime\<close> reads the leftmost match of the
  pattern: a message that contains \<open>try again in 2.5s\<close> after an earlier advice gives
  the earlier wait, here 1000 ms.
\<close>

theorem extractWaitTime_later_advice_counterexample:
  "js_includes ''try again in 1s, or try again in 2.5s'' ''try again in 2.5s''
   \<and> extractWaitTime ''try again in 1s, or try again in 2.5s'' = Some (Num 1000)"
proof -
  have "find_wait ''try again in 1s, or try again in 2.5s'' = Some ''1''"
    by (simp add: wait_defs char_eval)
  moreover have "js_ceil (fmul (parseFloat ''1'') (Num 1000)) = Num 1000"
    by (simp add: parseFloat_def is_digit_def dec_val_def digit_val_def js_ceil_def)
  ultimately have "extractWaitTime ''try again in 1s, or try again in 2.5s'' = Some (Num 1000)"
    unfolding extractWaitTime_def by simp
  then show ?thesis by simp
qed

text \<open>
  C3, amended. Without a credential \<open>makeRequest\<close> rejects and sends nothing. With one,
  there is a number \<open>n\<close> of retries, at most 3: the first \<open>n\<close> answers are rate-limit
  errors, the answer after them is not one unless \<open>n\<close> is 3, the call sends the same
  request \<open>n + 1\<close> times with a timer after each of the first \<open>n\<close>, and the last answer
  settles it, so that a rate-limit error after 3 retries is the rejection. The timer of
  retry \<open>i\<close> waits what \<open>waitTime\<close> gives for the message of answer \<open>i\<close>: the wait
  that \<open>extractWaitTime\<close> reads from the message when that is a number other than 0
  and \<open>NaN\<close>, and otherwise, up to retry count 3, the exponential backoff of 1000 ms
  doubled per retry. \<open>extractWaitTime\<close> gives 2500 ms on the message of the test
  vector and on every message whose leftmost match of the pattern reads 2.5, in either
  case of the letters; it gives no value exactly on the messages without a match of the
  pattern, and then the wait is the exponential backoff.
\<close>

theorem makeRequest_rate_limit_retries:
  "(\<not> truthy (api_key svc p) \<longrightarrow>
      makeRequest svc tr ep d p 0 s
      = (Inl (Error ((if p = ''groq'' then ''Groq'' else ''OpenAI'') @ '' API key not set.'')), s))
   \<and> (truthy (api_key svc p) \<longrightarrow>
        (\<exists>n \<le> 3.
           (\<forall>i < n. rate_limited (answer (exchange svc tr ep d p) i (world s)))
           \<and> (n < 3 \<longrightarrow> \<not> rate_limited (answer (exchange svc tr ep d p) n (world s)))
           \<and> makeRequest svc tr ep d p 0 s
             = (settled (answer (exchange svc tr ep d p) n (world s)),
                \<lparr>world = world_before (exchange svc tr ep d p) (Suc n) (world s),
                 trace = trace s
                   @ concat (map (\<lambda>i. [sent svc ep d p,
                                        SetTimeout (waitTime (error_text
                                          (answer (exchange svc tr ep d p) i (world s))) i)])
                               [0..<n])
                   @ [sent svc ep d p]\<rparr>)))
   \<and> (extractWaitTime m = Some v \<and> num_truthy v \<longrightarrow> waitTime m k = v)
   \<and> extractWaitTime ''Please try again in 2.5s'' = Some (Num 2500)
   \<and> (toLowerCase w = ''try again in '' \<and> lower_char c = CHR ''s''
        \<and> (\<forall>i < length pre. match_wait_here (drop i (pre @ w @ ''2.5'' @ c # post)) = None)
      \<longrightarrow> extractWaitTime (pre @ w @ ''2.5'' @ c # post) = Some (Num 2500))
   \<and> ((extractWaitTime m0 = None) =
       (\<not> (\<exists>pre w run c post. m0 = pre @ w @ run @ c # post \<and> toLowerCase w = ''try again in ''
              \<and> run \<noteq> [] \<and> list_all is_num_char run \<and> lower_char c = CHR ''s'')))
   \<and> (k \<le> 3 \<and> (extractWaitTime m0 = None
                   \<or> (\<exists>v. extractWaitTime m0 = Some v \<and> \<not> num_truthy v))
      \<longrightarrow> waitTime m0 k = Num (1000 * 2 ^ k))"
proof -
  have nokey: "\<not> truthy (api_key svc p) \<longrightarrow>
      makeRequest svc tr ep d p 0 s
      = (Inl (Error ((if p = ''groq'' then ''Groq'' else ''OpenAI'') @ '' API key not set.'')), s)"
    using makeRequest_no_key [of p svc tr ep d 0 s] by (simp add: api_key_def)
  have unrolled: "truthy (api_key svc p) \<longrightarrow>
        (\<exists>n \<le> 3.
           (\<forall>i < n. rate_limited (answer (exchange svc tr ep d p) i (world s)))
           \<and> (n < 3 \<longrightarrow> \<not> rate_limited (answer (exchange svc tr ep d p) n (world s)))
           \<and> makeRequest svc tr ep d p 0 s
             = (settled (answer (exchange svc tr ep d p) n (world s)),
                \<lparr>world = world_before (exchange svc tr ep d p) (Suc n) (world s),
                 trace = trace s
                   @ concat (map (\<lambda>i. [sent svc ep d p,
                                        SetTimeout (waitTime (error_text
                                          (answer (exchange svc tr ep d p) i (world s))) i)])
                               [0..<n])
                   @ [sent svc ep d p]\<rparr>))"
  proof
    assume "truthy (api_key svc p)"
    from makeRequest_unrolled [OF this, of 0 tr ep d s] show "\<exists>n \<le> 3.
           (\<forall>i < n. rate_limited (answer (exchange svc tr ep d p) i (world s)))
           \<and> (n < 3 \<longrightarrow> \<not> rate_limited (answer (exchange svc tr ep d p) n (world s)))
           \<and> makeRequest svc tr ep d p 0 s
             = (settled (answer (exchange svc tr ep d p) n (world s)),
                \<lparr>world = world_before (exchange svc tr ep d p) (Suc n) (world s),
                 trace = trace s
                   @ concat (map (\<lambda>i. [sent svc ep d p,
                                        SetTimeout (waitTime (error_text
                                          (answer (exchange svc tr ep d p) i (world s))) i)])
                               [0..<n])
                   @ [sent svc ep d p]\<rparr>)"
      by simp
  qed
  have waits: "extractWaitTime m = Some v \<and> num_truthy v \<longrightarrow> waitTime m k = v"
    using waitTime_advised [of m v k] by blast
  have leftmost: "toLowerCase w = ''try again in '' \<and> lower_char c = CHR ''s''
        \<and> (\<forall>i < length pre. match_wait_here (drop i (pre @ w @ ''2.5'' @ c # post)) = None)
      \<longrightarrow> extractWaitTime (pre @ w @ ''2.5'' @ c # post) = Some (Num 2500)"
    using extractWaitTime_leftmost [of w c pre post] by blast
  have none: "k \<le> 3 \<and> (extractWaitTime m0 = None
                   \<or> (\<exists>v. extractWaitTime m0 = Some v \<and> \<not> num_truthy v))
      \<longrightarrow> waitTime m0 k = Num (1000 * 2 ^ k)"
    using waitTime_backoff [of k m0] by blast
  from nokey unrolled waits extractWaitTime_vector leftmost extractWaitTime_None_iff [of m0] none
  show ?thesis by (intro conjI)
qed

lemma limited_message:
  "isRateLimitError (Error ''Rate limit reached. Please try again in 2.5s'')"
  by (simp add: isRateLimitError_def)

lemma limited_find:
  "find_wait ''Rate limit reached. Please try again in 2.5s'' = Some ''2.5''"
  by (simp add: wait_defs char_eval)

lemma limited_advice:
  "extractWaitTime ''Rate limit reached. Please try again in 2.5s'' = Some (Num 2500)"
  unfolding extractWaitTime_def limited_find by (simp add: wait_2_5)

lemma zero_advice: "extractWaitTime ''Rate limit: try again in 0s'' = Some (Num 0)"
proof -
  have "find_wait ''Rate limit: try again in 0s'' = Some ''0''"
    by (simp add: wait_defs char_eval)
  moreover have "js_ceil (fmul (parseFloat ''0'') (Num 1000)) = Num 0"
    by (simp add: parseFloat_def is_digit_def dec_val_def digit_val_def js_ceil_def)
  ultimately show ?thesis unfolding extractWaitTime_def by simp
qed

lemma limited_answer:
  "answer (exchange fast_only limited_transport ep d ''groq'') i w
   = ErrorJson (Some ''Rate limit reached. Please try again in 2.5s'')"
  by (simp add: answer_def exchange_def limited_transport_def)

lemma limited_world: "world_before (exchange fast_only limited_transport ep d ''groq'') i w = i + w"
  by (induction i arbitrary: w) (simp_all add: exchange_def limited_transport_def)

lemma flaky_world: "world_before (exchange fast_only flaky_transport ep d ''groq'') i w = i + w"
  by (induction i arbitrary: w) (simp_all add: exchange_def flaky_transport_def)

lemma flaky_answer:
  "answer (exchange fast_only flaky_transport ep d ''groq'') i 0
   = (if i = 0 then ErrorJson (Some ''Rate limit reached'') else OkJson (ChatJson (Some ''hello'')))"
  by (simp add: answer_def flaky_world) (simp add: exchange_def flaky_transport_def)

lemma plain_message: "extractWaitTime ''Rate limit reached'' = None"
proof -
  have "find_wait ''Rate limit reached'' = None" by (simp add: wait_defs char_eval)
  then show ?thesis by (simp add: extractWaitTime_def)
qed

lemma plain_limited: "isRateLimitError (Error ''Rate limit reached'')"
  by (simp add: isRateLimitError_def)

lemma please_prefix:
  "\<forall>i < length ''Please ''.
      match_wait_here (drop i (''Please '' @ ''Try Again In '' @ ''2.5'' @ CHR ''S'' # '' or later'')) = None"
  by (simp add: All_less_Suc numeral_eq_Suc wait_defs char_eval)

lemma shout: "toLowerCase ''Try Again In '' = ''try again in '' \<and> lower_char CHR ''S'' = CHR ''s''"
  by (simp add: toLowerCase_def lower_char_def char_eval)

theorem makeRequest_rate_limit_retries_witness:
  "\<not> truthy (api_key no_keys ''groq'')
   \<and> makeRequest no_keys dead_transport ''/chat/completions'' (EmbeddingData ''m'' ''x'') ''groq'' 0 idle
       = (Inl (Error ''Groq API key not set.''), idle)
   \<and> truthy (api_key fast_only ''groq'')
   \<and> makeRequest fast_only limited_transport ''/chat/completions'' (EmbeddingData ''m'' ''x'')
        ''groq'' 0 idle
       = (Inl (Error ''Rate limit reached. Please try again in 2.5s''),
          \<lparr>world = 4,
           trace = [Post ''api.groq.com'' ''/openai/v1/chat/completions'' ''gsk-fast'' (EmbeddingData ''m'' ''x''),
                    SetTimeout (Num 2500),
                    Post ''api.groq.com'' ''/openai/v1/chat/completions'' ''gsk-fast'' (EmbeddingData ''m'' ''x''),
                    SetTimeout (Num 2500),
                    Post ''api.groq.com'' ''/openai/v1/chat/completions'' ''gsk-fast'' (EmbeddingData ''m'' ''x''),
                    SetTimeout (Num 2500),
                    Post ''api.groq.com'' ''/openai/v1/chat/completions'' ''gsk-fast'' (EmbeddingData ''m'' ''x'')]\<rparr>)
   \<and> makeRequest fast_only flaky_transport ''/chat/completions'' (EmbeddingData ''m'' ''x'')
        ''groq'' 0 idle
       = (Inr (ChatJson (Some ''hello'')),
          \<lparr>world = 2,
           trace = [Post ''api.groq.com'' ''/openai/v1/chat/completions'' ''gsk-fast'' (EmbeddingData ''m'' ''x''),
                    SetTimeout (Num 1000),
                    Post ''api.groq.com'' ''/openai/v1/chat/completions'' ''gsk-fast'' (EmbeddingData ''m'' ''x'')]\<rparr>)
   \<and> extractWaitTime (''Please '' @ ''Try Again In '' @ ''2.5'' @ CHR ''S'' # '' or later'')
       = Some (Num 2500)
   \<and> extractWaitTime ''Rate limit reached. Please try again in 2.5s'' = Some (Num 2500)
   \<and> num_truthy (Num 2500)
   \<and> waitTime ''Rate limit reached. Please try again in 2.5s'' 1 = Num 2500
   \<and> extractWaitTime ''Rate limit reached'' = None
   \<and> waitTime ''Rate limit reached'' 2 = Num 4000
   \<and> extractWaitTime ''Rate limit: try again in 0s'' = Some (Num 0)
   \<and> waitTime ''Rate limit: try again in 0s'' 1 = Num 2000"
proof -
  let ?ep = "''/chat/completions''" and ?d = "EmbeddingData ''m'' ''x''"
  have nk: "\<not> truthy (api_key no_keys ''groq'')"
    by (simp add: api_key_def no_keys_def truthy_def)
  have key: "truthy (api_key fast_only ''groq'')"
    by (simp add: api_key_def fast_only_def truthy_def)
  have snt: "sent fast_only ?ep ?d ''groq''
             = Post ''api.groq.com'' ''/openai/v1/chat/completions'' ''gsk-fast'' ?d"
    by (simp add: sent_def api_host_def api_path_def api_key_def fast_only_def)
  have w0: "world idle = 0" and t0: "trace idle = []" by (simp_all add: idle_def)
  have tr: "num_truthy (Num 2500)" and fl: "\<not> num_truthy (Num 0)" by (simp_all add: num_truthy_def)
  have limited_wait: "waitTime ''Rate limit reached. Please try again in 2.5s'' k = Num 2500" for k
    using makeRequest_rate_limit_retries [where m = "''Rate limit reached. Please try again in 2.5s''"
        and v = "Num 2500" and k = k, THEN conjunct2, THEN conjunct2, THEN conjunct1]
      limited_advice tr
    by blast
  from makeRequest_rate_limit_retries [where svc = no_keys and p = "''groq''" and tr = dead_transport
      and ep = ?ep and d = ?d and s = idle] nk
  have first: "makeRequest no_keys dead_transport ?ep ?d ''groq'' 0 idle
       = (Inl (Error ''Groq API key not set.''), idle)"
    by simp
  from makeRequest_rate_limit_retries [where svc = fast_only and p = "''groq''"
      and tr = limited_transport and ep = ?ep and d = ?d and s = idle] key
  obtain n where n: "n \<le> 3"
    and stop: "n < 3 \<longrightarrow> \<not> rate_limited (answer (exchange fast_only limited_transport ?ep ?d ''groq'') n (world idle))"
    and res: "makeRequest fast_only limited_transport ?ep ?d ''groq'' 0 idle
             = (settled (answer (exchange fast_only limited_transport ?ep ?d ''groq'') n (world idle)),
                \<lparr>world = world_before (exchange fast_only limited_transport ?ep ?d ''groq'') (Suc n) (world idle),
                 trace = trace idle
                   @ concat (map (\<lambda>i. [sent fast_only ?ep ?d ''groq'',
                                        SetTimeout (waitTime (error_text
                                          (answer (exchange fast_only limited_transport ?ep ?d ''groq'') i (world idle))) i)])
                               [0..<n])
                   @ [sent fast_only ?ep ?d ''groq'']\<rparr>)"
    by blast
  have "rate_limited (answer (exchange fast_only limited_transport ?ep ?d ''groq'') n (world idle))"
    by (simp add: limited_answer rate_limited_def error_text_def or_else_def limited_message)
  with stop n have n3: "n = 3" by simp
  have second: "makeRequest fast_only limited_transport ?ep ?d ''groq'' 0 idle
       = (Inl (Error ''Rate limit reached. Please try again in 2.5s''),
          \<lparr>world = 4,
           trace = [Post ''api.groq.com'' ''/openai/v1/chat/completions'' ''gsk-fast'' ?d,
                    SetTimeout (Num 2500),
                    Post ''api.groq.com'' ''/openai/v1/chat/completions'' ''gsk-fast'' ?d,
                    SetTimeout (Num 2500),
                    Post ''api.groq.com'' ''/openai/v1/chat/completions'' ''gsk-fast'' ?d,
                    SetTimeout (Num 2500),
                    Post ''api.groq.com'' ''/openai/v1/chat/completions'' ''gsk-fast'' ?d]\<rparr>)"
    unfolding res n3
    by (simp add: limited_answer limited_world settled_def error_text_def or_else_def limited_wait
        snt w0 t0 upt_rec)
  from makeRequest_rate_limit_retries [where svc = fast_only and p = "''groq''"
      and tr = flaky_transport and ep = ?ep and d = ?d and s = idle] key
  obtain j where j: "j \<le> 3"
    and lim: "\<forall>i < j. rate_limited (answer (exchange fast_only flaky_transport ?ep ?d ''groq'') i (world idle))"
    and stop': "j < 3 \<longrightarrow> \<not> rate_limited (answer (exchange fast_only flaky_transport ?ep ?d ''groq'') j (world idle))"
    and res': "makeRequest fast_only flaky_transport ?ep ?d ''groq'' 0 idle
             = (settled (answer (exchange fast_only flaky_transport ?ep ?d ''groq'') j (world idle)),
                \<lparr>world = world_before (exchange fast_only flaky_transport ?ep ?d ''groq'') (Suc j) (world idle),
                 trace = trace idle
                   @ concat (map (\<lambda>i. [sent fast_only ?ep ?d ''groq'',
                                        SetTimeout (waitTime (error_text
                                          (answer (exchange fast_only flaky_transport ?ep ?d ''groq'') i (world idle))) i)])
                               [0..<j])
                   @ [sent fast_only ?ep ?d ''groq'']\<rparr>)"
    by blast
  have r0: "rate_limited (answer (exchange fast_only flaky_transport ?ep ?d ''groq'') 0 (world idle))"
    by (simp add: w0 flaky_answer rate_limited_def error_text_def or_else_def plain_limited)
  have r1: "\<not> rate_limited (answer (exchange fast_only flaky_transport ?ep ?d ''groq'') 1 (world idle))"
    by (simp add: w0 flaky_answer rate_limited_def)
  have "j \<noteq> 0"
  proof
    assume "j = 0"
    with stop' r0 show False by simp
  qed
  moreover have "\<not> 1 < j"
  proof
    assume "1 < j"
    with lim have "rate_limited (answer (exchange fast_only flaky_transport ?ep ?d ''groq'') 1 (world idle))"
      by blast
    with r1 show False by simp
  qed
  ultimately have j1: "j = 1" by simp
  have backoff: "waitTime ''Rate limit reached'' 0 = Num 1000"
    using makeRequest_rate_limit_retries [where ?m0.0 = "''Rate limit reached''" and k = 0,
        THEN conjunct2, THEN conjunct2, THEN conjunct2, THEN conjunct2, THEN conjunct2, THEN conjunct2]
      plain_message
    by simp
  have wb: "world_before (exchange fast_only flaky_transport ?ep ?d ''groq'') (Suc 1) (world idle) = 2"
    unfolding flaky_world w0 by simp
  have third: "makeRequest fast_only flaky_transport ?ep ?d ''groq'' 0 idle
       = (Inr (ChatJson (Some ''hello'')),
          \<lparr>world = 2,
           trace = [Post ''api.groq.com'' ''/openai/v1/chat/completions'' ''gsk-fast'' ?d,
                    SetTimeout (Num 1000),
                    Post ''api.groq.com'' ''/openai/v1/chat/completions'' ''gsk-fast'' ?d]\<rparr>)"
    unfolding res' j1 wb
    by (simp add: w0 t0 flaky_answer settled_def error_text_def or_else_def backoff snt)
  from makeRequest_rate_limit_retries [where w = "''Try Again In ''" and c = "CHR ''S''"
      and pre = "''Please ''" and post = "'' or later''"] shout please_prefix
  have fourth: "extractWaitTime (''Please '' @ ''Try Again In '' @ ''2.5'' @ CHR ''S'' # '' or later'')
       = Some (Num 2500)"
    by blast
  from makeRequest_rate_limit_retries [where ?m0.0 = "''Rate limit reached''" and k = 2,
      THEN conjunct2, THEN conjunct2, THEN conjunct2, THEN conjunct2, THEN conjunct2, THEN conjunct2]
    plain_message
  have fifth: "waitTime ''Rate limit reached'' 2 = Num 4000"
    by simp
  from makeRequest_rate_limit_retries [where ?m0.0 = "''Rate limit: try again in 0s''" and k = 1,
      THEN conjunct2, THEN conjunct2, THEN conjunct2, THEN conjunct2, THEN conjunct2, THEN conjunct2]
    zero_advice fl
  have sixth: "waitTime ''Rate limit: try again in 0s'' 1 = Num 2000"
    by simp
  from nk first key second third fourth limited_advice tr limited_wait [of 1] plain_message fifth
    zero_advice sixth
  show ?thesis
    by (intro conjI)
qed

section \<open>Properties of the fallback orchestrator\<close>

lemma chatCompletion_openai:
  "provider \<noteq> ''groq'' \<Longrightarrow> estimatedTokens msgs sp \<le> 4000 \<Longrightarrow>
   chatCompletion svc tr msgs sp provider s = chat_attempt svc tr msgs sp provider s"
  by (subst chatCompletion.simps) (simp add: Let_def split: sum.splits prod.splits, metis prod.collapse)

lemma chatCompletion_oversized:
  "4000 < estimatedTokens msgs sp \<Longrightarrow>
   chatCompletion svc tr msgs sp provider s = (Inl (too_large_error (estimatedTokens msgs sp)), s)"
  by (simp add: chatCompletion.simps [of _ _ _ _ provider] chatCompletion.simps [of _ _ _ _ "''openai''"])

lemma chatCompletion_no_keys:
  assumes "\<not> truthy (openaiApiKey svc)" and "\<not> truthy (groqApiKey svc)"
  shows "\<exists>e. chatCompletion svc tr msgs sp ''groq'' s = (Inl e, s)"
proof (cases "4000 < estimatedTokens msgs sp")
  case True
  then show ?thesis by (simp add: chatCompletion_oversized)
next
  case False
  have "chat_attempt svc tr msgs sp ''groq'' s = (Inl (Error ''Groq API key not set.''), s)"
    using assms(2) by (simp add: chat_attempt_def Let_def makeRequest_no_key)
  with False assms(1) show ?thesis
    by (simp add: chatCompletion.simps [of _ _ _ _ "''groq''"] Let_def)
qed

text \<open>
  The attempt fails when the gateway rejects, after its retries or for a missing
  credential, and when the answer has no \<open>choices[0].message\<close>.
\<close>

lemma chat_attempt_rejected:
  "makeRequest svc tr ''/chat/completions''
     (ChatData (if provider = ''groq'' then groqModel else openaiModel)
        (if truthy sp then \<lparr>role = ''system'', content = sp\<rparr> # msgs else msgs)
        (7 / 10) (if provider = ''groq'' then 600 else 800))
     provider 0 s = (Inl e, s')
   \<Longrightarrow> chat_attempt svc tr msgs sp provider s = (Inl e, s')"
  by (simp add: chat_attempt_def Let_def)

text \<open>
  C1. Take any conversation and system prompt whose request is sent, that is, whose
  estimate is within the ceiling, and let the attempt against the fast provider fail
  with an error, whatever it is. With a primary credential configured, \<open>chatCompletion\<close>
  returns what the same attempt against the primary provider gives, made in the state
  the failure left, and the caller does not see the failure. Without one, it rejects
  with that very error.
\<close>

theorem chatCompletion_fallback:
  assumes "estimatedTokens msgs sp \<le> 4000"
    and "chat_attempt svc tr msgs sp ''groq'' s = (Inl e, s')"
  shows "(truthy (openaiApiKey svc) \<longrightarrow>
            chatCompletion svc tr msgs sp ''groq'' s = chat_attempt svc tr msgs sp ''openai'' s')
       \<and> (\<not> truthy (openaiApiKey svc) \<longrightarrow>
            chatCompletion svc tr msgs sp ''groq'' s = (Inl e, s'))"
  using assms
  by (simp add: chatCompletion.simps [of _ _ _ _ "''groq''"] chatCompletion_openai Let_def)

lemma hi_estimate: "estimatedTokens hi None \<le> 4000"
  by (simp add: hi_def estimatedTokens_def or_else_def estimateTokens_def)

lemma overloaded_not_rate_limit: "\<not> isRateLimitError (Error ''model overloaded'')"
  by (simp add: isRateLimitError_def)

lemma hi_fast_attempt:
  "groqApiKey svc = Some ''gsk-fast'' \<Longrightarrow>
   chat_attempt svc failover_transport hi None ''groq'' idle
   = (Inl (Error ''model overloaded''),
      \<lparr>world = 1, trace = [Post ''api.groq.com'' ''/openai/v1/chat/completions'' ''gsk-fast''
                              (ChatData groqModel hi (7 / 10) 600)]\<rparr>)"
  using overloaded_not_rate_limit
  by (simp add: chat_attempt_def makeRequest.simps Let_def failover_transport_def truthy_def
      idle_def or_else_def)

lemma hi_primary_attempt:
  "chat_attempt both_keys failover_transport hi None ''openai'' \<lparr>world = Suc 0, trace = t\<rparr>
   = (Inr (Some ''hello''),
      \<lparr>world = 2, trace = t @ [Post ''api.openai.com'' ''/chat/completions'' ''sk-primary''
                              (ChatData openaiModel hi (7 / 10) 800)]\<rparr>)"
  by (simp add: chat_attempt_def makeRequest.simps Let_def failover_transport_def truthy_def
      both_keys_def chat_content_def)

theorem chatCompletion_fallback_witness:
  "estimatedTokens hi None \<le> 4000
   \<and> chat_attempt both_keys failover_transport hi None ''groq'' idle
       = (Inl (Error ''model overloaded''),
          \<lparr>world = 1, trace = [Post ''api.groq.com'' ''/openai/v1/chat/completions'' ''gsk-fast''
                                  (ChatData groqModel hi (7 / 10) 600)]\<rparr>)
   \<and> truthy (openaiApiKey both_keys)
   \<and> chatCompletion both_keys failover_transport hi None ''groq'' idle
       = (Inr (Some ''hello''),
          \<lparr>world = 2, trace = [Post ''api.groq.com'' ''/openai/v1/chat/completions'' ''gsk-fast''
                                  (ChatData groqModel hi (7 / 10) 600),
                                Post ''api.openai.com'' ''/chat/completions'' ''sk-primary''
                                  (ChatData openaiModel hi (7 / 10) 800)]\<rparr>)
   \<and> \<not> truthy (openaiApiKey fast_only)
   \<and> chatCompletion fast_only failover_transport hi None ''groq'' idle
       = (Inl (Error ''model overloaded''),
          \<lparr>world = 1, trace = [Post ''api.groq.com'' ''/openai/v1/chat/completions'' ''gsk-fast''
                                  (ChatData groqModel hi (7 / 10) 600)]\<rparr>)"
proof -
  have a1: "chat_attempt both_keys failover_transport hi None ''groq'' idle
       = (Inl (Error ''model overloaded''),
          \<lparr>world = 1, trace = [Post ''api.groq.com'' ''/openai/v1/chat/completions'' ''gsk-fast''
                                  (ChatData groqModel hi (7 / 10) 600)]\<rparr>)"
    by (rule hi_fast_attempt) (simp add: both_keys_def)
  have a2: "chat_attempt fast_only failover_transport hi None ''groq'' idle
       = (Inl (Error ''model overloaded''),
          \<lparr>world = 1, trace = [Post ''api.groq.com'' ''/openai/v1/chat/completions'' ''gsk-fast''
                                  (ChatData groqModel hi (7 / 10) 600)]\<rparr>)"
    by (rule hi_fast_attempt) (simp add: fast_only_def)
  have k1: "truthy (openaiApiKey both_keys)" by (simp add: both_keys_def truthy_def)
  have k2: "\<not> truthy (openaiApiKey fast_only)" by (simp add: fast_only_def truthy_def)
  from chatCompletion_fallback [OF hi_estimate a1] k1
  have "chatCompletion both_keys failover_transport hi None ''groq'' idle
       = (Inr (Some ''hello''),
          \<lparr>world = 2, trace = [Post ''api.groq.com'' ''/openai/v1/chat/completions'' ''gsk-fast''
                                  (ChatData groqModel hi (7 / 10) 600),
                                Post ''api.openai.com'' ''/chat/completions'' ''sk-primary''
                                  (ChatData openaiModel hi (7 / 10) 800)]\<rparr>)"
    by (simp add: hi_primary_attempt)
  moreover from chatCompletion_fallback [OF hi_estimate a2] k2
  have "chatCompletion fast_only failover_transport hi None ''groq'' idle
       = (Inl (Error ''model overloaded''),
          \<lparr>world = 1, trace = [Post ''api.groq.com'' ''/openai/v1/chat/completions'' ''gsk-fast''
                                  (ChatData groqModel hi (7 / 10) 600)]\<rparr>)"
    by simp
  ultimately show ?thesis using hi_estimate a1 k1 k2 by simp
qed

text \<open>
  C2. The claim: an oversized conversation sent with the fast provider preferred and a
  primary credential configured goes to the primary provider, and the error is for the
  case without an alternative. The code: the call made again for the primary provider
  estimates the same conversation, finds it over the same ceiling and rejects. With the
  two credentials set and one message of 16000 characters, estimated at 4001 tokens,
  \<open>chatCompletion\<close> rejects with the error and leaves the state as it was: no request
  is sent to either provider, whatever the network would answer.
\<close>

theorem chatCompletion_oversized_never_reaches_primary:
  "chatCompletion both_keys tr [\<lparr>role = ''user'', content = Some (replicate 16000 CHR ''a'')\<rparr>] None
     ''groq'' s
   = (Inl (Error ''Request too large (estimated 4001 tokens, max ~4000). Please reduce text size.''),
      s)"
proof -
  have "estimatedTokens [\<lparr>role = ''user'', content = Some (replicate 16000 CHR ''a'')\<rparr>] None = 4001"
    by (simp add: estimatedTokens_def or_else_def estimateTokens_def)
  moreover have "show_nat 4001 = ''4001''"
    by (simp add: show_nat.simps char_eval)
  ultimately show ?thesis
    by (simp add: chatCompletion_oversized too_large_error_def)
qed

section \<open>Properties of categorization\<close>

lemma fallbackCategorize_in_categories: "fallbackCategorize t \<in> set categories"
  by (cases t) (simp_all add: fallbackCategorize_def truthy_def Let_def categories_def)

lemma find_in_categories:
  "(case find P categories of Some c \<Rightarrow> c | None \<Rightarrow> ''other'') \<in> set categories"
proof (cases "find P categories")
  case None
  then show ?thesis by (simp add: categories_def)
next
  case (Some c)
  then have "c \<in> set categories" by (auto simp: find_Some_iff)
  with Some show ?thesis by simp
qed

lemma categorizeText_label:
  "\<exists>label. fst (categorizeText svc tr t s) = Inr label \<and> label \<in> set categories"
  by (auto simp: categorizeText_def Let_def fallbackCategorize_in_categories find_in_categories
      split: sum.splits option.splits)

lemma categorizeText_no_keys:
  assumes "\<not> truthy (openaiApiKey svc)" and "\<not> truthy (groqApiKey svc)"
  shows "categorizeText svc tr t s = (Inr (fallbackCategorize (Some t)), s)"
proof -
  obtain e where
    "chatCompletion svc tr
       [\<lparr>role = ''user'', content = Some (categorize_prompt (truncateText t MAX_CATEGORIZE_LENGTH))\<rparr>]
       None ''groq'' s = (Inl e, s)"
    using chatCompletion_no_keys [OF assms] by blast
  then show ?thesis
    by (simp add: categorizeText_def Let_def)
qed

lemma categorizeText_failure:
  assumes "fst (chatCompletion svc tr
       [\<lparr>role = ''user'', content = Some (categorize_prompt (truncateText t MAX_CATEGORIZE_LENGTH))\<rparr>]
       None ''groq'' s) = Inl e"
  shows "fst (categorizeText svc tr t s) = Inr (fallbackCategorize (Some t))"
  using assms by (simp add: categorizeText_def Let_def)

lemma categorizeText_absent_content:
  assumes "fst (chatCompletion svc tr
       [\<lparr>role = ''user'', content = Some (categorize_prompt (truncateText t MAX_CATEGORIZE_LENGTH))\<rparr>]
       None ''groq'' s) = Inr None"
  shows "fst (categorizeText svc tr t s) = Inr (fallbackCategorize (Some t))"
  using assms by (simp add: categorizeText_def Let_def)

lemma categorizeText_unmatched:
  assumes "\<not> isTextTooLarge t MAX_CATEGORIZE_LENGTH"
    and "fst (chatCompletion svc tr
       [\<lparr>role = ''user'', content = Some (categorize_prompt (truncateText t MAX_CATEGORIZE_LENGTH))\<rparr>]
       None ''groq'' s) = Inr (Some c)"
    and "\<forall>cat \<in> set categories. \<not> js_includes (toLowerCase (js_trim c)) cat"
  shows "fst (categorizeText svc tr t s) = Inr ''other''"
proof -
  from assms(3) have "find (\<lambda>cat. js_includes (toLowerCase (js_trim c)) cat) categories = None"
    by (simp add: find_None_iff)
  with assms(1,2) show ?thesis
    by (simp add: categorizeText_def Let_def)
qed

lemma address_prompt_estimate:
  "estimatedTokens
     [\<lparr>role = ''user'',
       content = Some (categorize_prompt (truncateText ''test@example.com'' MAX_CATEGORIZE_LENGTH))\<rparr>]
     None \<le> 4000"
  by (simp add: estimatedTokens_def or_else_def estimateTokens_def categorize_prompt_def
      truncateText_def MAX_CATEGORIZE_LENGTH_def categories_def)

lemma address_banana_chat:
  "fst (chatCompletion fast_only banana_transport
     [\<lparr>role = ''user'',
       content = Some (categorize_prompt (truncateText ''test@example.com'' MAX_CATEGORIZE_LENGTH))\<rparr>]
     None ''groq'' idle) = Inr (Some ''banana'')"
  using address_prompt_estimate
  by (simp add: chatCompletion.simps [of _ _ _ _ "''groq''"] chat_attempt_def makeRequest.simps Let_def
      fast_only_def banana_transport_def truthy_def chat_content_def idle_def)

lemma address_not_too_large: "\<not> isTextTooLarge ''test@example.com'' MAX_CATEGORIZE_LENGTH"
  by (simp add: isTextTooLarge_def MAX_CATEGORIZE_LENGTH_def)

lemma banana_unmatched:
  "\<forall>cat \<in> set categories. \<not> js_includes (toLowerCase (js_trim ''banana'')) cat"
  by (simp add: categories_def js_trim_def is_space_def toLowerCase_def lower_char_def)

lemma address_is_email: "fallbackCategorize (Some ''test@example.com'') = ''email''"
  by (simp add: classify_defs)

text \<open>
  C4, the claim as stated fails. The fast provider answers \<open>banana\<close>, which names no
  category, to the text \<open>test@example.com\<close>: \<open>categorizeText\<close> returns \<open>other\<close>, and
  not the label \<open>email\<close> of the heuristic classifier.
\<close>

theorem categorizeText_unmatched_counterexample:
  "fst (categorizeText fast_only banana_transport ''test@example.com'' idle) = Inr ''other''
   \<and> fallbackCategorize (Some ''test@example.com'') = ''email''"
  using address_banana_chat
  by (simp add: categorizeText_def Let_def address_not_too_large address_is_email
      categories_def js_trim_def is_space_def toLowerCase_def lower_char_def)

text \<open>
  C4, amended. For every input string, every pair of credentials and every behaviour of
  the network, \<open>categorizeText\<close> resolves, and with one of the eleven labels. With both
  credentials absent the label is that of the heuristic classifier and nothing is sent.
  A text over the sample ceiling, a failed call and an answer without content all give
  the label of the heuristic classifier. An answer that contains no category name gives
  \<open>other\<close>.
\<close>

theorem categorizeText_total:
  "(\<exists>label. fst (categorizeText svc tr t s) = Inr label \<and> label \<in> set categories)
   \<and> length categories = 11
   \<and> (\<not> truthy (openaiApiKey svc) \<and> \<not> truthy (groqApiKey svc)
        \<longrightarrow> categorizeText svc tr t s = (Inr (fallbackCategorize (Some t)), s))
   \<and> (isTextTooLarge t MAX_CATEGORIZE_LENGTH
        \<longrightarrow> categorizeText svc tr t s = (Inr (fallbackCategorize (Some t)), s))
   \<and> (fst (chatCompletion svc tr
              [\<lparr>role = ''user'',
                content = Some (categorize_prompt (truncateText t MAX_CATEGORIZE_LENGTH))\<rparr>]
              None ''groq'' s) = Inl e
        \<longrightarrow> fst (categorizeText svc tr t s) = Inr (fallbackCategorize (Some t)))
   \<and> (fst (chatCompletion svc tr
              [\<lparr>role = ''user'',
                content = Some (categorize_prompt (truncateText t MAX_CATEGORIZE_LENGTH))\<rparr>]
              None ''groq'' s) = Inr None
        \<longrightarrow> fst (categorizeText svc tr t s) = Inr (fallbackCategorize (Some t)))
   \<and> (\<not> isTextTooLarge t MAX_CATEGORIZE_LENGTH
        \<and> fst (chatCompletion svc tr
              [\<lparr>role = ''user'',
                content = Some (categorize_prompt (truncateText t MAX_CATEGORIZE_LENGTH))\<rparr>]
              None ''groq'' s) = Inr (Some c)
        \<and> (\<forall>cat \<in> set categories. \<not> js_includes (toLowerCase (js_trim c)) cat)
        \<longrightarrow> fst (categorizeText svc tr t s) = Inr ''other'')"
proof -
  have "length categories = 11" by (simp add: categories_def)
  moreover have "isTextTooLarge t MAX_CATEGORIZE_LENGTH
        \<longrightarrow> categorizeText svc tr t s = (Inr (fallbackCategorize (Some t)), s)"
    by (simp add: categorizeText_def)
  ultimately show ?thesis
    using categorizeText_label [of svc tr t s] categorizeText_no_keys [of svc tr t s]
      categorizeText_failure [of svc tr t s e] categorizeText_absent_content [of svc tr t s]
      categorizeText_unmatched [of t svc tr s c]
    by blast
qed

lemma address_dead_chat:
  "fst (chatCompletion fast_only dead_transport
     [\<lparr>role = ''user'',
       content = Some (categorize_prompt (truncateText ''test@example.com'' MAX_CATEGORIZE_LENGTH))\<rparr>]
     None ''groq'' idle) = Inl (Error ''ECONNREFUSED'')"
  using address_prompt_estimate
  by (simp add: chatCompletion.simps [of _ _ _ _ "''groq''"] chat_attempt_def makeRequest.simps Let_def
      fast_only_def dead_transport_def truthy_def idle_def)

lemma long_text_too_large: "isTextTooLarge (replicate 1001 CHR ''7'') MAX_CATEGORIZE_LENGTH"
  by (simp add: isTextTooLarge_def MAX_CATEGORIZE_LENGTH_def)

lemma sevens_trim: "js_trim (replicate n CHR ''7'') = replicate n CHR ''7''"
proof -
  have "\<not> is_space CHR ''7''" by (simp add: is_space_def)
  then show ?thesis by (simp add: js_trim_def)
qed

lemma long_text_number: "fallbackCategorize (Some (replicate 1001 CHR ''7'')) = ''number''"
proof -
  have "\<not> js_includes (replicate n CHR ''7'') ''@''" for n
    by (induction n) simp_all
  moreover have "\<not> startsWith (replicate 1001 CHR ''7'') ''http://''"
    and "\<not> startsWith (replicate 1001 CHR ''7'') ''https://''"
    by (simp_all add: startsWith_def numeral_eq_Suc)
  moreover have "all_digits (js_trim (replicate 1001 CHR ''7''))"
    by (simp add: sevens_trim all_digits_def list_all_iff is_digit_def)
  ultimately show ?thesis
    by (simp add: fallbackCategorize_def truthy_def)
qed

theorem categorizeText_total_witness:
  "\<not> truthy (openaiApiKey no_keys) \<and> \<not> truthy (groqApiKey no_keys)
   \<and> categorizeText no_keys dead_transport ''test@example.com'' idle = (Inr ''email'', idle)
   \<and> isTextTooLarge (replicate 1001 CHR ''7'') MAX_CATEGORIZE_LENGTH
   \<and> categorizeText both_keys dead_transport (replicate 1001 CHR ''7'') idle = (Inr ''number'', idle)
   \<and> fst (categorizeText fast_only dead_transport ''test@example.com'' idle) = Inr ''email''
   \<and> \<not> isTextTooLarge ''test@example.com'' MAX_CATEGORIZE_LENGTH
   \<and> find (\<lambda>cat. js_includes (toLowerCase (js_trim ''banana'')) cat) categories = None
   \<and> fst (categorizeText fast_only banana_transport ''test@example.com'' idle) = Inr ''other''"
proof -
  have k: "\<not> truthy (openaiApiKey no_keys) \<and> \<not> truthy (groqApiKey no_keys)"
    by (simp add: no_keys_def truthy_def)
  from categorizeText_total [of no_keys dead_transport "''test@example.com''" idle] k
  have "categorizeText no_keys dead_transport ''test@example.com'' idle = (Inr ''email'', idle)"
    by (simp add: address_is_email)
  moreover from categorizeText_total [of both_keys dead_transport "replicate 1001 CHR ''7''" idle]
    long_text_too_large
  have "categorizeText both_keys dead_transport (replicate 1001 CHR ''7'') idle = (Inr ''number'', idle)"
    by (simp add: long_text_number)
  moreover from categorizeText_total [of fast_only dead_transport "''test@example.com''" idle
      "Error ''ECONNREFUSED''"] address_dead_chat
  have "fst (categorizeText fast_only dead_transport ''test@example.com'' idle) = Inr ''email''"
    by (simp add: address_is_email)
  moreover from categorizeText_total [of fast_only banana_transport "''test@example.com''" idle _
      "''banana''"] address_banana_chat address_not_too_large banana_unmatched
  have "fst (categorizeText fast_only banana_transport ''test@example.com'' idle) = Inr ''other''"
    by blast
  ultimately show ?thesis
    using k long_text_too_large address_not_too_large banana_unmatched
    by (simp add: find_None_iff)
qed

section \<open>Properties of cosine similarity\<close>

lemma fmul_zero_left: "fmul (Num 0) z = Num 0 \<or> fmul (Num 0) z = NaN"
  by (cases z) simp_all

lemma fmul_zero_right: "fmul z (Num 0) = Num 0 \<or> fmul z (Num 0) = NaN"
  by (cases z) simp_all

lemma cosine_loop:
  "n \<le> length a \<Longrightarrow> n \<le> length b \<Longrightarrow>
   snd (foldl (\<lambda>(dotProduct, normA, normB) i.
              (fadd dotProduct (fmul (a ! i) (b ! i)),
               fadd normA (fmul (a ! i) (a ! i)),
               fadd normB (fmul (b ! i) (b ! i))))
           (Num 0, Num 0, Num 0) [0..<n])
   = (squares (take n a), squares (take n b))"
  by (induction n) (simp_all add: squares_def take_Suc_conv_app_nth split_beta)

lemma cosine_sums_norms:
  "length a = length b \<Longrightarrow> snd (cosine_sums a b) = (squares a, squares b)"
  unfolding cosine_sums_def using cosine_loop [of "length a" a b] by simp

lemma cosine_loop_self:
  "n \<le> length v \<Longrightarrow>
   fst (foldl (\<lambda>(dotProduct, normA, normB) i.
              (fadd dotProduct (fmul (v ! i) (v ! i)),
               fadd normA (fmul (v ! i) (v ! i)),
               fadd normB (fmul (v ! i) (v ! i))))
           (Num 0, Num 0, Num 0) [0..<n])
   = squares (take n v)"
  by (induction n) (simp_all add: squares_def take_Suc_conv_app_nth split_beta)

lemma cosine_sums_self: "cosine_sums v v = (squares v, squares v, squares v)"
proof -
  have "fst (cosine_sums v v) = squares v"
    unfolding cosine_sums_def using cosine_loop_self [of "length v" v] by simp
  moreover have "snd (cosine_sums v v) = (squares v, squares v)"
    by (simp add: cosine_sums_norms)
  ultimately show ?thesis by (metis prod.collapse)
qed

lemma cosine_self_eq:
  "cosineSimilarity (Some v) (Some v)
   = fdiv (squares v) (fmul (fsqrt (squares v)) (fsqrt (squares v)))"
  by (simp add: cosineSimilarity_def cosine_sums_self)

lemma cosine_zero_norm:
  assumes "length a = length b" and "squares a = Num 0 \<or> squares b = Num 0"
  shows "cosineSimilarity (Some a) (Some b) = NaN
         \<or> cosineSimilarity (Some a) (Some b) = Infinity
         \<or> cosineSimilarity (Some a) (Some b) = NegInfinity"
proof -
  obtain dt where sums: "cosine_sums a b = (dt, squares a, squares b)"
    using cosine_sums_norms [OF assms(1)] by (metis prod.collapse)
  have z: "fsqrt (Num 0) = Num 0" by simp
  have den: "fmul (fsqrt (squares a)) (fsqrt (squares b)) = Num 0
             \<or> fmul (fsqrt (squares a)) (fsqrt (squares b)) = NaN"
    using assms(2) fmul_zero_left [of "fsqrt (squares b)"] fmul_zero_right [of "fsqrt (squares a)"]
    by (auto simp only: z)
  have "\<And>den. den = Num 0 \<or> den = NaN \<Longrightarrow>
          fdiv dt den = NaN \<or> fdiv dt den = Infinity \<or> fdiv dt den = NegInfinity"
    by (cases dt) (auto split: if_splits)
  with den show ?thesis
    using assms(1) by (simp add: cosineSimilarity_def sums)
qed

lemma cosine_self_degenerate:
  assumes "squares v = Num 0 \<or> squares v = Infinity"
  shows "cosineSimilarity (Some v) (Some v) = NaN"
  using assms by (auto simp: cosine_self_eq)

lemma cosine_self_tolerance:
  assumes sq: "squares v = Num s" and lo: "1 / 2 ^ 1021 \<le> s" and hi: "s \<le> 2 ^ 1022"
  shows "\<exists>q. cosineSimilarity (Some v) (Some v) = Num q \<and> \<bar>q - 1\<bar> \<le> 1 / 2 ^ 50"
proof -
  define u :: real where "u = 1 / 2 ^ 53"
  have u: "0 \<le> u" "u \<le> 1 / 100" "u \<le> 1 / 4" by (simp_all add: u_def)
  have "(0::real) < 1 / 2 ^ 1021" by simp
  with lo have s: "0 < s" by linarith
  define t where "t = sqrt s"
  have t: "0 < t" and tt: "t * t = s" using s by (simp_all add: t_def)
  have "(1 / 2 ^ 511)\<^sup>2 \<le> s"
  proof -
    have "((1::real) / 2 ^ 511)\<^sup>2 = 1 / 2 ^ 1022" by (simp add: power_divide)
    also have "\<dots> \<le> 1 / 2 ^ 1021" by simp
    finally show ?thesis using lo by simp
  qed
  then have "1 / 2 ^ 511 \<le> t" unfolding t_def by (rule real_le_rsqrt)
  moreover have "(1 / 2 ^ 1022 :: real) \<le> 1 / 2 ^ 511" by simp
  ultimately have t_lo: "1 / 2 ^ 1022 \<le> t" by linarith
  have "t \<le> 2 ^ 511" unfolding t_def by (rule real_le_lsqrt) (use hi in simp_all)
  moreover have "(2 ^ 511 :: real) \<le> 2 ^ 1023" by simp
  ultimately have t_hi: "t \<le> 2 ^ 1023" by linarith
  from rnd_normal_factor [OF t_lo t_hi] obtain a where
    r: "rnd t = Num (t * a)" and a: "1 - u \<le> a" "a \<le> 1 + u" unfolding u_def by blast
  have a34: "3 / 4 \<le> a" "a \<le> 5 / 4" using a u by linarith+
  have a0: "0 \<le> a" using a34 by linarith
  have aa_lo: "(3 / 4) * (3 / 4) \<le> a * a"
    by (rule mult_mono [OF a34(1) a34(1)]) (use a0 in simp_all)
  have aa_hi: "a * a \<le> (5 / 4) * (5 / 4)"
    by (rule mult_mono [OF a34(2) a34(2)]) (use a0 in simp_all)
  have aa: "1 / 2 \<le> a * a" "a * a \<le> 2" using aa_lo aa_hi by simp_all
  define rr where "rr = s * (a * a)"
  have rr_eq: "t * a * (t * a) = rr" using tt by (simp add: rr_def algebra_simps)
  have "(1 / 2 ^ 1021) * (1 / 2) \<le> s * (a * a)"
    by (rule mult_mono [OF lo aa(1)]) (use s in simp_all)
  then have rr_lo: "1 / 2 ^ 1022 \<le> rr" by (simp add: rr_def)
  have "s * (a * a) \<le> 2 ^ 1022 * 2"
    by (rule mult_mono [OF hi aa(2)]) (use aa in simp_all)
  then have rr_hi: "rr \<le> 2 ^ 1023" by (simp add: rr_def)
  from rnd_normal_factor [OF rr_lo rr_hi] obtain b where
    p: "rnd rr = Num (rr * b)" and b: "1 - u \<le> b" "b \<le> 1 + u" unfolding u_def by blast
  have b34: "3 / 4 \<le> b" "b \<le> 5 / 4" using b u by linarith+
  have d_lo: "(1 / 2) * (3 / 4) \<le> a * a * b"
    by (rule mult_mono [OF aa(1) b34(1)]) (use aa in simp_all)
  have d_hi: "a * a * b \<le> 2 * (5 / 4)"
    by (rule mult_mono [OF aa(2) b34(2)]) (use b34 in simp_all)
  have d0: "0 < a * a * b" using d_lo by simp
  have "0 < a * a" using aa(1) by linarith
  with s have rr0: "0 < rr" unfolding rr_def by (rule mult_pos_pos)
  have p0: "rr * b \<noteq> 0" using rr0 b34 by simp
  have quot: "s / (rr * b) = 1 / (a * a * b)" using s by (simp add: rr_def)
  have "1 / (a * a * b) \<le> 1 / ((1 / 2) * (3 / 4))"
    by (rule divide_left_mono [OF d_lo]) (use d0 in simp_all)
  then have q_hi: "1 / (a * a * b) \<le> 2 ^ 1023" by simp
  have "1 / (2 * (5 / 4)) \<le> 1 / (a * a * b)"
    by (rule divide_left_mono [OF d_hi]) (use d0 in simp_all)
  then have q_lo: "1 / 2 ^ 1022 \<le> 1 / (a * a * b)" by simp
  from rnd_normal_factor [OF q_lo q_hi] obtain c where
    q: "rnd (1 / (a * a * b)) = Num (1 / (a * a * b) * c)" and c: "1 - u \<le> c" "c \<le> 1 + u"
    unfolding u_def by blast
  have "cosineSimilarity (Some v) (Some v) = fdiv (Num s) (fmul (rnd t) (rnd t))"
    using s by (simp add: cosine_self_eq sq t_def)
  also have "\<dots> = fdiv (Num s) (rnd rr)" by (simp add: r rr_eq)
  also have "\<dots> = rnd (s / (rr * b))" using p0 by (simp add: p)
  also have "\<dots> = Num (c / (a * a * b))" by (simp add: quot q)
  finally have res: "cosineSimilarity (Some v) (Some v) = Num (c / (a * a * b))" .
  have "\<bar>c / (a * a * b) - 1\<bar> \<le> 8 * u"
    by (rule three_roundings [OF u(1) u(2) a b c])
  also have "8 * u = 1 / 2 ^ 50" by (simp add: u_def)
  finally show ?thesis using res by blast
qed

lemma cosine_eq:
  "length a = length b \<Longrightarrow>
   cosineSimilarity (Some a) (Some b)
   = (case cosine_sums a b of
        (dotProduct, normA, normB) \<Rightarrow> fdiv dotProduct (fmul (fsqrt normA) (fsqrt normB)))"
  by (simp add: cosineSimilarity_def)

lemma squares_simps:
  "squares [] = Num 0"
  "squares (x # xs) = foldl (\<lambda>acc x. fadd acc (fmul x x)) (fadd (Num 0) (fmul x x)) xs"
  by (simp_all add: squares_def)

lemma squares_overflow: "squares [Num (2 ^ 600)] = Infinity"
proof -
  have "rnd (2 ^ 600 * 2 ^ 600) = Infinity" by (rule rnd_huge) simp
  then show ?thesis by (simp add: squares_def)
qed

lemma squares_underflow: "squares [Num (1 / 2 ^ 600), Num 0] = Num 0"
proof -
  have "rnd (1 / 2 ^ 600 * (1 / 2 ^ 600)) = Num 0" by (rule rnd_tiny) simp_all
  then show ?thesis by (simp add: squares_def)
qed

lemma squares_3_4: "squares [Num 3, Num 4] = Num 25"
  by (simp add: squares_def)

lemma zero_against_1_2: "cosineSimilarity (Some [Num 0, Num 0]) (Some [Num 1, Num 2]) = NaN"
proof -
  have sums: "cosine_sums [Num 0, Num 0] [Num 1, Num 2] = (Num 0, Num 0, Num 5)"
    by (simp add: cosine_sums_def upt_rec numeral_2_eq_2)
  have "fmul (Num 0) (fsqrt (Num 5)) = Num 0 \<or> fmul (Num 0) (fsqrt (Num 5)) = NaN"
    by (rule fmul_zero_left)
  then have "fdiv (Num 0) (fmul (fsqrt (Num 0)) (fsqrt (Num 5))) = NaN"
    by auto
  then show ?thesis by (simp add: cosineSimilarity_def sums)
qed

lemma tiny_against_large:
  "cosineSimilarity (Some [Num (1 / 2 ^ 600)]) (Some [Num (2 ^ 300)]) = Infinity"
proof -
  have t: "rnd (1 / 2 ^ 600 * (1 / 2 ^ 600)) = Num 0" by (rule rnd_tiny) simp_all
  have d: "rnd (1 / 2 ^ 300) = Num (1 / 2 ^ 300)" by (rule rnd_inverse_power2) simp
  have "(1 / 2 ^ 600 * 2 ^ 300 :: real) = 1 / 2 ^ 300" by simp
  then have p: "rnd (1 / 2 ^ 600 * 2 ^ 300) = Num (1 / 2 ^ 300)" using d by simp
  have b: "rnd (2 ^ 300 * 2 ^ 300) = Num (2 ^ 600)"
    using rnd_power2 [of 600] by simp
  have sums: "cosine_sums [Num (1 / 2 ^ 600)] [Num (2 ^ 300)] = (Num (1 / 2 ^ 300), Num 0, Num (2 ^ 600))"
    unfolding cosine_sums_def using t p b d rnd_power2 [of 600] by simp
  have "sqrt (2 ^ 600) = (2 ^ 300 :: real)"
    by (rule real_sqrt_unique) simp_all
  then have "fsqrt (Num (2 ^ 600)) = Num (2 ^ 300)"
    using rnd_power2 [of 300] by simp
  then have inf: "fdiv (Num (1 / 2 ^ 300)) (fmul (fsqrt (Num 0)) (fsqrt (Num (2 ^ 600)))) = Infinity"
    by simp
  have "cosineSimilarity (Some [Num (1 / 2 ^ 600)]) (Some [Num (2 ^ 300)])
        = (case cosine_sums [Num (1 / 2 ^ 600)] [Num (2 ^ 300)] of
             (dotProduct, normA, normB) \<Rightarrow> fdiv dotProduct (fmul (fsqrt normA) (fsqrt normB)))"
    by (rule cosine_eq) simp
  also have "\<dots> = fdiv (Num (1 / 2 ^ 300)) (fmul (fsqrt (Num 0)) (fsqrt (Num (2 ^ 600))))"
    by (simp only: sums prod.case)
  finally show ?thesis by (simp only: inf)
qed

text \<open>
  C5, the claim as stated fails. Two empty vectors have the same length, the loop does
  not run and the division is 0 by 0: the result is \<open>NaN\<close>, and so it is for a zero
  vector against a vector of its length. In doubles a vector that is not zero need not
  give 1 against itself either: the square of \<open>2^600\<close> overflows and the square of
  \<open>2^-600\<close> underflows to 0, and both vectors give \<open>NaN\<close>. A norm that has underflowed
  to 0 under a dot product that has not gives a division of a positive number by 0.
\<close>

theorem cosineSimilarity_zero_norm_counterexample:
  "cosineSimilarity (Some []) (Some []) = NaN
   \<and> cosineSimilarity (Some [Num 0, Num 0]) (Some [Num 1, Num 2]) = NaN
   \<and> cosineSimilarity (Some [Num (2 ^ 600)]) (Some [Num (2 ^ 600)]) = NaN
   \<and> cosineSimilarity (Some [Num (1 / 2 ^ 600), Num 0]) (Some [Num (1 / 2 ^ 600), Num 0]) = NaN
   \<and> cosineSimilarity (Some [Num (1 / 2 ^ 600)]) (Some [Num (2 ^ 300)]) = Infinity"
proof -
  have "cosineSimilarity (Some []) (Some []) = NaN"
    by (simp add: cosineSimilarity_def cosine_sums_def)
  moreover have "cosineSimilarity (Some [Num (2 ^ 600)]) (Some [Num (2 ^ 600)]) = NaN"
    by (rule cosine_self_degenerate) (simp only: squares_overflow simp_thms)
  moreover have "cosineSimilarity (Some [Num (1 / 2 ^ 600), Num 0]) (Some [Num (1 / 2 ^ 600), Num 0]) = NaN"
    by (rule cosine_self_degenerate) (simp only: squares_underflow simp_thms)
  ultimately show ?thesis
    using zero_against_1_2 tiny_against_large by (intro conjI)
qed

text \<open>
  C5, amended, in doubles. The similarity is exactly 0 when a vector is absent and when
  the two vectors differ in length, which covers one empty vector against one that is
  not. There is no guard on the norms: for two vectors of equal length of which one has
  0 as the sum of its squares, two empty vectors among them, the division is by 0 or by
  \<open>NaN\<close> and the result is \<open>NaN\<close> or an infinity, never 0. The similarity of a vector
  with itself is within \<open>2^-50\<close> of 1 when the sum of its squares, as the loop computes
  it, is a double from \<open>2^-1021\<close> to \<open>2^1022\<close>; it is \<open>NaN\<close> when that sum is 0 or has
  overflowed.
\<close>

theorem cosineSimilarity_spec:
  "cosineSimilarity None y = Num 0
   \<and> cosineSimilarity x None = Num 0
   \<and> (length a \<noteq> length b \<longrightarrow> cosineSimilarity (Some a) (Some b) = Num 0)
   \<and> (length a = length b \<and> (squares a = Num 0 \<or> squares b = Num 0)
        \<longrightarrow> cosineSimilarity (Some a) (Some b) = NaN
            \<or> cosineSimilarity (Some a) (Some b) = Infinity
            \<or> cosineSimilarity (Some a) (Some b) = NegInfinity)
   \<and> (squares v = Num \<sigma> \<and> 1 / 2 ^ 1021 \<le> \<sigma> \<and> \<sigma> \<le> 2 ^ 1022
        \<longrightarrow> (\<exists>q. cosineSimilarity (Some v) (Some v) = Num q \<and> \<bar>q - 1\<bar> \<le> 1 / 2 ^ 50))
   \<and> (squares v = Num 0 \<or> squares v = Infinity \<longrightarrow> cosineSimilarity (Some v) (Some v) = NaN)"
proof -
  have "cosineSimilarity None y = Num 0" and "cosineSimilarity x None = Num 0"
    by (simp_all add: cosineSimilarity_def split: option.splits)
  moreover have "length a \<noteq> length b \<longrightarrow> cosineSimilarity (Some a) (Some b) = Num 0"
    by (simp add: cosineSimilarity_def)
  moreover have "length a = length b \<and> (squares a = Num 0 \<or> squares b = Num 0)
        \<longrightarrow> cosineSimilarity (Some a) (Some b) = NaN
            \<or> cosineSimilarity (Some a) (Some b) = Infinity
            \<or> cosineSimilarity (Some a) (Some b) = NegInfinity"
    using cosine_zero_norm [of a b] by blast
  moreover have "squares v = Num \<sigma> \<and> 1 / 2 ^ 1021 \<le> \<sigma> \<and> \<sigma> \<le> 2 ^ 1022
        \<longrightarrow> (\<exists>q. cosineSimilarity (Some v) (Some v) = Num q \<and> \<bar>q - 1\<bar> \<le> 1 / 2 ^ 50)"
    using cosine_self_tolerance [of v \<sigma>] by blast
  moreover have "squares v = Num 0 \<or> squares v = Infinity
        \<longrightarrow> cosineSimilarity (Some v) (Some v) = NaN"
    using cosine_self_degenerate [of v] by blast
  ultimately show ?thesis by (intro conjI)
qed

theorem cosineSimilarity_spec_witness:
  "length [Num 1] \<noteq> length ([] :: jsnum list)
   \<and> cosineSimilarity (Some [Num 1]) (Some []) = Num 0
   \<and> squares [Num 0, Num 0] = Num 0
   \<and> (cosineSimilarity (Some [Num 0, Num 0]) (Some [Num 1, Num 2]) = NaN
      \<or> cosineSimilarity (Some [Num 0, Num 0]) (Some [Num 1, Num 2]) = Infinity
      \<or> cosineSimilarity (Some [Num 0, Num 0]) (Some [Num 1, Num 2]) = NegInfinity)
   \<and> squares [Num 3, Num 4] = Num 25
   \<and> (\<exists>q. cosineSimilarity (Some [Num 3, Num 4]) (Some [Num 3, Num 4]) = Num q
           \<and> \<bar>q - 1\<bar> \<le> 1 / 2 ^ 50)
   \<and> squares [Num (2 ^ 600)] = Infinity
   \<and> cosineSimilarity (Some [Num (2 ^ 600)]) (Some [Num (2 ^ 600)]) = NaN"
proof -
  have sq: "squares [Num 0, Num 0] = Num 0" by (simp add: squares_def)
  have len: "length [Num 0, Num 0] = length [Num 1, Num 2]" by simp
  have range: "(1 / 2 ^ 1021 :: real) \<le> 25" "(25 :: real) \<le> 2 ^ 1022" by simp_all
  from cosineSimilarity_spec [where a = "[Num 1]" and b = "[]"]
  have one: "cosineSimilarity (Some [Num 1]) (Some []) = Num 0" by simp
  from cosineSimilarity_spec [where a = "[Num 0, Num 0]" and b = "[Num 1, Num 2]",
      THEN conjunct2, THEN conjunct2, THEN conjunct2, THEN conjunct1] len sq
  have two: "cosineSimilarity (Some [Num 0, Num 0]) (Some [Num 1, Num 2]) = NaN
      \<or> cosineSimilarity (Some [Num 0, Num 0]) (Some [Num 1, Num 2]) = Infinity
      \<or> cosineSimilarity (Some [Num 0, Num 0]) (Some [Num 1, Num 2]) = NegInfinity"
    by blast
  from cosineSimilarity_spec [where v = "[Num 3, Num 4]" and \<sigma> = 25,
      THEN conjunct2, THEN conjunct2, THEN conjunct2, THEN conjunct2, THEN conjunct1]
    squares_3_4 range
  have three: "\<exists>q. cosineSimilarity (Some [Num 3, Num 4]) (Some [Num 3, Num 4]) = Num q
           \<and> \<bar>q - 1\<bar> \<le> 1 / 2 ^ 50"
    by blast
  from cosineSimilarity_spec [where v = "[Num (2 ^ 600)]",
      THEN conjunct2, THEN conjunct2, THEN conjunct2, THEN conjunct2, THEN conjunct2]
    squares_overflow
  have four: "cosineSimilarity (Some [Num (2 ^ 600)]) (Some [Num (2 ^ 600)]) = NaN"
    by blast
  have "length [Num 1] \<noteq> length ([] :: jsnum list)" by simp
  from this one sq two squares_3_4 three squares_overflow four show ?thesis
    by (intro conjI)
qed

section \<open>Properties of the search\<close>

lemma js_includes_iff: "js_includes s sub = (\<exists>pre post. s = pre @ sub @ post)"
proof (induction s)
  case Nil
  then show ?case by simp
next
  case (Cons c cs)
  show ?case
  proof
    assume "js_includes (c # cs) sub"
    then consider "prefix sub (c # cs)" | "js_includes cs sub" by auto
    then show "\<exists>pre post. c # cs = pre @ sub @ post"
    proof cases
      case 1
      then obtain post where "c # cs = sub @ post" by (auto simp: prefix_def)
      then have "c # cs = [] @ sub @ post" by simp
      then show ?thesis by blast
    next
      case 2
      with Cons.IH obtain pre post where "cs = pre @ sub @ post" by blast
      then have "c # cs = (c # pre) @ sub @ post" by simp
      then show ?thesis by blast
    qed
  next
    assume "\<exists>pre post. c # cs = pre @ sub @ post"
    then obtain pre post where eq: "c # cs = pre @ sub @ post" by blast
    show "js_includes (c # cs) sub"
    proof (cases pre)
      case Nil
      with eq have "prefix sub (c # cs)" by (simp add: prefix_def)
      then show ?thesis by simp
    next
      case (Cons a pre')
      with eq have "cs = pre' @ sub @ post" by simp
      with Cons.IH have "js_includes cs sub" by blast
      then show ?thesis by simp
    qed
  qed
qed

lemma semanticSearch_no_keys:
  assumes "\<not> truthy (openaiApiKey svc)" and "\<not> truthy (groqApiKey svc)"
  shows "semanticSearch svc tr query items limit s
         = (Inr (keyword_search (truncateText query 500) items limit), s)"
  using assms by (simp add: semanticSearch_def embedding_search_def ranking_search_def Let_def)

lemma keyword_search_eq:
  "keyword_search q items limit =
     take limit (filter (\<lambda>it. query_words q = []
                   \<or> (\<exists>w \<in> set (query_words q). \<exists>pre post. toLowerCase (text it) = pre @ w @ post))
                   items)"
  by (simp add: keyword_search_def query_words_def Let_def list_ex_iff js_includes_iff)

lemma keyword_search_subseq: "subseq (keyword_search q items limit) items"
proof -
  have "subseq (take limit (filter P items)) items" for P :: "'a item_scheme \<Rightarrow> bool"
  proof -
    have "prefix (take limit (filter P items)) (filter P items)" by (rule take_is_prefix)
    then have "subseq (take limit (filter P items)) (filter P items)" by (rule prefix_imp_subseq)
    moreover have "subseq (filter P items) items" by (rule subseq_filter_left)
    ultimately show ?thesis by (rule subseq_order.order_trans)
  qed
  then show ?thesis by (simp add: keyword_search_def Let_def)
qed

lemma keyword_search_length: "length (keyword_search q items limit) \<le> limit"
  by (simp add: keyword_search_def Let_def)

lemma split_ws_Nil: "split_ws [] = [[]]"
  by (simp add: split_ws.simps)

lemma keyword_search_empty_query: "keyword_search [] items limit = take limit items"
  by (simp add: keyword_search_def toLowerCase_def split_ws_Nil)

lemma set_sort_insert: "set (sort_insert x ys) = insert x (set ys)"
  by (induction ys) auto

lemma set_sort_by_similarity: "set (sort_by_similarity xs) = set xs"
  unfolding sort_by_similarity_def by (induction xs) (simp_all add: set_sort_insert)

lemma embedding_search_within:
  assumes "fst (embedding_search svc tr q limitedItems limit s) = Some results"
  shows "set results \<subseteq> set limitedItems"
proof -
  have sub: "set (map fst (take limit (sort_by_similarity
                 (map (\<lambda>it. (it, f it)) (filter has_embedding limitedItems)))))
         \<subseteq> set limitedItems" for f :: "'a item_scheme \<Rightarrow> jsnum"
  proof -
    have "set (take limit (sort_by_similarity (map (\<lambda>it. (it, f it)) (filter has_embedding limitedItems))))
          \<subseteq> set (map (\<lambda>it. (it, f it)) (filter has_embedding limitedItems))"
      using set_take_subset [of limit] by (metis set_sort_by_similarity)
    then show ?thesis by auto
  qed
  from assms obtain qe where
    "results = map fst (take limit (sort_by_similarity
        (map (\<lambda>it. (it, cosineSimilarity qe (embedding it))) (filter has_embedding limitedItems))))"
    by (auto simp: embedding_search_def Let_def split: if_splits sum.splits)
  then show ?thesis
    using sub [of "\<lambda>it. cosineSimilarity qe (embedding it)"] by blast
qed

lemma ranking_search_within:
  assumes "fst (ranking_search svc tr q limitedItems limit s) = Some results"
  shows "set results \<subseteq> set limitedItems"
proof -
  have sub: "set (map (\<lambda>i. limitedItems ! nat i)
                 (take limit (filter (\<lambda>i. 0 \<le> i \<and> i < int (length limitedItems)) js)))
             \<subseteq> set limitedItems" for js
  proof
    fix x assume "x \<in> set (map (\<lambda>i. limitedItems ! nat i)
                 (take limit (filter (\<lambda>i. 0 \<le> i \<and> i < int (length limitedItems)) js)))"
    then obtain i where "i \<in> set (take limit (filter (\<lambda>i. 0 \<le> i \<and> i < int (length limitedItems)) js))"
      and x: "x = limitedItems ! nat i" by auto
    then have "i \<in> set (filter (\<lambda>i. 0 \<le> i \<and> i < int (length limitedItems)) js)"
      by (meson in_set_takeD)
    then have "nat i < length limitedItems" by auto
    with x show "x \<in> set limitedItems" by simp
  qed
  from assms obtain js where
    "results = map (\<lambda>i. limitedItems ! nat i)
                 (take limit (filter (\<lambda>i. 0 \<le> i \<and> i < int (length limitedItems)) js))"
    by (auto simp: ranking_search_def Let_def split: if_splits sum.splits option.splits)
  then show ?thesis
    using sub [of js] by blast
qed

lemma in_take_index:
  assumes "x \<in> set (take n xs)"
  shows "\<exists>i < n. i < length xs \<and> x = xs ! i"
proof -
  from assms obtain i where "i < length (take n xs)" and "take n xs ! i = x"
    by (auto simp: in_set_conv_nth)
  then have "i < n \<and> i < length xs \<and> x = xs ! i" by simp
  then show ?thesis by blast
qed

lemma capped_results:
  assumes "set results \<subseteq> set (take MAX_SEARCH_ITEMS items)"
  shows "(\<forall>r \<in> set results. \<exists>i < MAX_SEARCH_ITEMS. i < length items \<and> r = items ! i)
         \<and> (distinct items \<longrightarrow>
              (\<forall>j. MAX_SEARCH_ITEMS \<le> j \<and> j < length items \<longrightarrow> items ! j \<notin> set results))"
proof (intro conjI ballI impI allI)
  fix r assume "r \<in> set results"
  with assms have "r \<in> set (take MAX_SEARCH_ITEMS items)" by (rule subsetD)
  then show "\<exists>i < MAX_SEARCH_ITEMS. i < length items \<and> r = items ! i"
    by (rule in_take_index)
next
  fix j assume d: "distinct items" and j: "MAX_SEARCH_ITEMS \<le> j \<and> j < length items"
  show "items ! j \<notin> set results"
  proof
    assume "items ! j \<in> set results"
    with assms have "items ! j \<in> set (take MAX_SEARCH_ITEMS items)" by (rule subsetD)
    then obtain i where i: "i < MAX_SEARCH_ITEMS" "i < length items" "items ! j = items ! i"
      using in_take_index [of "items ! j" MAX_SEARCH_ITEMS items] by auto
    from d j i(2,3) have "j = i" by (simp add: nth_eq_iff_index_eq)
    with i(1) j show False by simp
  qed
qed

lemma semanticSearch_unfold:
  "semanticSearch svc tr query items limit s =
     (case fst (embedding_search svc tr (truncateText query 500) (take MAX_SEARCH_ITEMS items) limit s) of
        Some results \<Rightarrow>
          (Inr results,
           snd (embedding_search svc tr (truncateText query 500) (take MAX_SEARCH_ITEMS items) limit s))
      | None \<Rightarrow>
          (case fst (ranking_search svc tr (truncateText query 500) (take MAX_SEARCH_ITEMS items) limit
                      (snd (embedding_search svc tr (truncateText query 500)
                              (take MAX_SEARCH_ITEMS items) limit s))) of
             Some results \<Rightarrow>
               (Inr results,
                snd (ranking_search svc tr (truncateText query 500) (take MAX_SEARCH_ITEMS items) limit
                       (snd (embedding_search svc tr (truncateText query 500)
                               (take MAX_SEARCH_ITEMS items) limit s))))
           | None \<Rightarrow>
               (Inr (keyword_search (truncateText query 500) items limit),
                snd (ranking_search svc tr (truncateText query 500) (take MAX_SEARCH_ITEMS items) limit
                       (snd (embedding_search svc tr (truncateText query 500)
                               (take MAX_SEARCH_ITEMS items) limit s))))))"
  unfolding semanticSearch_def Let_def by (rule refl)

lemma semanticSearch_sources:
  "\<exists>results s'. semanticSearch svc tr query items limit s = (Inr results, s')
       \<and> ((\<forall>r \<in> set results. \<exists>i < MAX_SEARCH_ITEMS. i < length items \<and> r = items ! i)
          \<or> results = keyword_search (truncateText query 500) items limit)"
proof -
  define r1 where
    "r1 = embedding_search svc tr (truncateText query 500) (take MAX_SEARCH_ITEMS items) limit s"
  define r2 where
    "r2 = ranking_search svc tr (truncateText query 500) (take MAX_SEARCH_ITEMS items) limit (snd r1)"
  have unfold: "semanticSearch svc tr query items limit s =
     (case fst r1 of
        Some results \<Rightarrow> (Inr results, snd r1)
      | None \<Rightarrow>
          (case fst r2 of
             Some results \<Rightarrow> (Inr results, snd r2)
           | None \<Rightarrow> (Inr (keyword_search (truncateText query 500) items limit), snd r2)))"
    unfolding r1_def r2_def by (rule semanticSearch_unfold)
  show ?thesis
  proof (cases "fst r1")
    case (Some results)
    then have "set results \<subseteq> set (take MAX_SEARCH_ITEMS items)"
      unfolding r1_def by (rule embedding_search_within)
    then have "\<forall>r \<in> set results. \<exists>i < MAX_SEARCH_ITEMS. i < length items \<and> r = items ! i"
      by (rule capped_results [THEN conjunct1])
    moreover have "semanticSearch svc tr query items limit s = (Inr results, snd r1)"
      by (simp only: unfold Some option.case)
    ultimately show ?thesis by (intro exI conjI disjI1)
  next
    case None
    show ?thesis
    proof (cases "fst r2")
      case (Some results)
      then have "set results \<subseteq> set (take MAX_SEARCH_ITEMS items)"
        unfolding r2_def by (rule ranking_search_within)
      then have "\<forall>r \<in> set results. \<exists>i < MAX_SEARCH_ITEMS. i < length items \<and> r = items ! i"
        by (rule capped_results [THEN conjunct1])
      moreover have "semanticSearch svc tr query items limit s = (Inr results, snd r2)"
        by (simp only: unfold None Some option.case)
      ultimately show ?thesis by (intro exI conjI disjI1)
    next
      case None2: None
      have "semanticSearch svc tr query items limit s
            = (Inr (keyword_search (truncateText query 500) items limit), snd r2)"
        by (simp only: unfold None None2 option.case)
      then show ?thesis by (intro exI conjI disjI2) (assumption, rule refl)
    qed
  qed
qed

subsection \<open>The pieces of a split\<close>

lemma last_dropWhile:
  assumes "dropWhile P xs \<noteq> []"
  shows "last (dropWhile P xs) = last xs"
proof -
  have "xs = takeWhile P xs @ dropWhile P xs" by simp
  then have "last xs = last (takeWhile P xs @ dropWhile P xs)" by simp
  also have "\<dots> = last (dropWhile P xs)" using assms by (rule last_appendR)
  finally show ?thesis by simp
qed

lemma split_ws_no_space:
  assumes "dropWhile (\<lambda>c. \<not> is_space c) s = []"
  shows "split_ws s = [s]"
proof -
  have "takeWhile (\<lambda>c. \<not> is_space c) s @ dropWhile (\<lambda>c. \<not> is_space c) s = s"
    by (rule takeWhile_dropWhile_id)
  then have t: "takeWhile (\<lambda>c. \<not> is_space c) s = s"
    by (simp only: assms append_Nil2)
  have "split_ws s =
     (let tok = takeWhile (\<lambda>c. \<not> is_space c) s;
          rest = dropWhile (\<lambda>c. \<not> is_space c) s
      in if rest = [] then [tok] else tok # split_ws (dropWhile is_space rest))"
    by (rule split_ws.simps)
  also have "\<dots> = [s]"
    unfolding Let_def by (simp only: assms t if_True refl)
  finally show ?thesis .
qed

lemma split_ws_space:
  assumes "dropWhile (\<lambda>c. \<not> is_space c) s \<noteq> []"
  shows "split_ws s = takeWhile (\<lambda>c. \<not> is_space c) s
                # split_ws (dropWhile is_space (dropWhile (\<lambda>c. \<not> is_space c) s))"
proof -
  have "split_ws s =
     (let tok = takeWhile (\<lambda>c. \<not> is_space c) s;
          rest = dropWhile (\<lambda>c. \<not> is_space c) s
      in if rest = [] then [tok] else tok # split_ws (dropWhile is_space rest))"
    by (rule split_ws.simps)
  also have "\<dots> = takeWhile (\<lambda>c. \<not> is_space c) s
                # split_ws (dropWhile is_space (dropWhile (\<lambda>c. \<not> is_space c) s))"
    unfolding Let_def by (simp only: assms if_False)
  finally show ?thesis .
qed

text \<open>
  A piece that is not empty is a block of the string without white space that cannot
  be extended: it has the start of the string or white space before it, and the end of
  the string or white space after it.
\<close>

lemma split_ws_pieces:
  "w \<noteq> [] \<Longrightarrow>
   (w \<in> set (split_ws s)) =
   ((\<forall>c \<in> set w. \<not> is_space c)
    \<and> (\<exists>pre post. s = pre @ w @ post \<and> (pre = [] \<or> is_space (last pre))
                   \<and> (post = [] \<or> is_space (hd post))))"
proof (induction s rule: split_ws.induct)
  case (1 s)
  let ?tok = "takeWhile (\<lambda>c. \<not> is_space c) s"
  let ?rest = "dropWhile (\<lambda>c. \<not> is_space c) s"
  let ?gap = "takeWhile is_space ?rest"
  let ?next = "dropWhile is_space ?rest"
  let ?Q = "\<lambda>s. (\<forall>c \<in> set w. \<not> is_space c)
    \<and> (\<exists>pre post. s = pre @ w @ post \<and> (pre = [] \<or> is_space (last pre))
                   \<and> (post = [] \<or> is_space (hd post)))"
  have tok: "\<forall>c \<in> set ?tok. \<not> is_space c" by (auto dest: set_takeWhileD)
  have whole: "?tok @ ?gap @ ?next = s" by simp
  show ?case
  proof (cases "?rest = []")
    case True
    then have split: "split_ws s = [s]" by (rule split_ws_no_space)
    have "?tok @ ?rest = s" by (rule takeWhile_dropWhile_id)
    with True have "?tok = s" by (simp only: append_Nil2)
    with tok have clean: "\<forall>c \<in> set s. \<not> is_space c" by (simp only:)
    show ?thesis
    proof
      assume "w \<in> set (split_ws s)"
      with split have ws: "w = s" by simp
      then have "s = [] @ w @ []" by simp
      moreover from clean ws have "\<forall>c \<in> set w. \<not> is_space c" by simp
      ultimately show "?Q s" by blast
    next
      assume q: "?Q s"
      then obtain pre post where eq: "s = pre @ w @ post"
        and b: "pre = [] \<or> is_space (last pre)" and a: "post = [] \<or> is_space (hd post)"
        by blast
      have "pre = []"
      proof (rule ccontr)
        assume ne: "pre \<noteq> []"
        then have "last pre \<in> set pre" by simp
        then have "last pre \<in> set s" by (simp add: eq)
        with clean b ne show False by blast
      qed
      moreover have "post = []"
      proof (rule ccontr)
        assume ne: "post \<noteq> []"
        then have "hd post \<in> set post" by simp
        then have "hd post \<in> set s" by (simp add: eq)
        with clean a ne show False by blast
      qed
      ultimately have "w = s" by (simp add: eq)
      with split show "w \<in> set (split_ws s)" by simp
    qed
  next
    case False
    then have split: "split_ws s = ?tok # split_ws ?next" by (rule split_ws_space)
    from False have hd_rest: "is_space (hd ?rest)"
      using hd_dropWhile [of "\<lambda>c. \<not> is_space c" s] by simp
    have IH: "(w \<in> set (split_ws ?next)) = ?Q ?next"
      using "1.IH" [OF refl refl False "1.prems"] .
    have gap_ne: "?gap \<noteq> []"
      using False hd_rest by (cases ?rest) simp_all
    have gap: "\<forall>c \<in> set ?gap. is_space c" by (auto dest: set_takeWhileD)
    show ?thesis
    proof
      assume "w \<in> set (split_ws s)"
      with split consider "w = ?tok" | "w \<in> set (split_ws ?next)" by auto
      then show "?Q s"
      proof cases
        case 1
        have "[] @ ?tok @ ?rest = s" by simp
        then have "s = [] @ w @ ?rest" by (simp only: 1)
        moreover have "?rest = [] \<or> is_space (hd ?rest)" using hd_rest by (rule disjI2)
        moreover have "\<forall>c \<in> set w. \<not> is_space c" using tok by (simp only: 1)
        ultimately show ?thesis by blast
      next
        case 2
        with IH obtain pre' post where clean: "\<forall>c \<in> set w. \<not> is_space c"
          and eq: "?next = pre' @ w @ post"
          and b: "pre' = [] \<or> is_space (last pre')" and a: "post = [] \<or> is_space (hd post)"
          by blast
        let ?pre = "?tok @ ?gap @ pre'"
        have "?pre @ w @ post = ?tok @ ?gap @ (pre' @ w @ post)" by simp
        also have "\<dots> = ?tok @ ?gap @ ?next" by (simp only: eq)
        also have "\<dots> = s" by (rule whole)
        finally have "s = ?pre @ w @ post" by (rule sym)
        moreover have "is_space (last ?pre)"
        proof (cases "pre' = []")
          case True
          have e: "last ?pre = last ?gap" using gap_ne True by simp
          have "last ?gap \<in> set ?gap" using gap_ne by (rule last_in_set)
          with gap have g: "is_space (last ?gap)" by (rule bspec)
          show ?thesis by (simp only: e g)
        next
          case False
          then have e: "last ?pre = last pre'" by simp
          from b False have g: "is_space (last pre')" by blast
          show ?thesis by (simp only: e g)
        qed
        ultimately show ?thesis using clean a by blast
      qed
    next
      assume q: "?Q s"
      then obtain pre post where clean: "\<forall>c \<in> set w. \<not> is_space c"
        and eq: "s = pre @ w @ post"
        and b: "pre = [] \<or> is_space (last pre)" and a: "post = [] \<or> is_space (hd post)"
        by blast
      have hdw: "\<not> is_space (hd w)" using clean "1.prems" by (cases w) simp_all
      show "w \<in> set (split_ws s)"
      proof (cases "pre = []")
        case True
        have "takeWhile (\<lambda>c. \<not> is_space c) (w @ post) = w"
        proof (cases "post = []")
          case True
          then show ?thesis using clean by simp
        next
          case False
          with a have "takeWhile (\<lambda>c. \<not> is_space c) post = []" by (cases post) simp_all
          then show ?thesis using clean by (simp add: takeWhile_append2)
        qed
        then have "?tok = w" by (simp add: eq True)
        with split show ?thesis by simp
      next
        case False
        with b have lp: "\<not> \<not> is_space (last pre)" by simp
        from False have in_pre: "last pre \<in> set pre" by (rule last_in_set)
        let ?pre1 = "dropWhile (\<lambda>c. \<not> is_space c) pre"
        have "dropWhile (\<lambda>c. \<not> is_space c) (pre @ (w @ post)) = ?pre1 @ (w @ post)"
          using in_pre lp by (rule dropWhile_append1)
        then have rest_eq: "?rest = ?pre1 @ w @ post" by (simp only: eq)
        have pre1_ne: "?pre1 \<noteq> []"
          using in_pre lp by (auto simp: dropWhile_eq_Nil_conv)
        then have "last ?pre1 = last pre" by (rule last_dropWhile)
        with lp have last1: "is_space (last ?pre1)" by simp
        have "?Q ?next"
        proof (cases "dropWhile is_space ?pre1 = []")
          case True
          then have "\<forall>c \<in> set ?pre1. is_space c"
            by (rule dropWhile_eq_Nil_conv [THEN iffD1])
          then have all: "\<And>c. c \<in> set ?pre1 \<Longrightarrow> is_space c"
            by (rule bspec)
          have "dropWhile is_space (?pre1 @ (w @ post)) = dropWhile is_space (w @ post)"
            using all by (rule dropWhile_append2)
          also have "\<dots> = w @ post" using hdw "1.prems" by (cases w) simp_all
          finally have "?next = [] @ w @ post" by (simp only: rest_eq append_Nil)
          with clean a show ?thesis by blast
        next
          case False
          then have "\<not> (\<forall>c \<in> set ?pre1. is_space c)"
            using dropWhile_eq_Nil_conv [of is_space ?pre1] by blast
          then obtain x where x: "x \<in> set ?pre1" "\<not> is_space x"
            by blast
          have "dropWhile is_space (?pre1 @ (w @ post)) = dropWhile is_space ?pre1 @ (w @ post)"
            using x by (rule dropWhile_append1)
          then have "?next = dropWhile is_space ?pre1 @ w @ post" by (simp only: rest_eq)
          moreover have "last (dropWhile is_space ?pre1) = last ?pre1"
            using False by (rule last_dropWhile)
          then have "is_space (last (dropWhile is_space ?pre1))" using last1 by simp
          ultimately show ?thesis using clean a by blast
        qed
        with IH have "w \<in> set (split_ws ?next)" by simp
        with split show ?thesis by simp
      qed
    qed
  qed
qed

lemma query_words_iff:
  "(w \<in> set (query_words q)) =
   (2 < length w \<and> (\<forall>c \<in> set w. \<not> is_space c)
    \<and> (\<exists>pre post. toLowerCase q = pre @ w @ post \<and> (pre = [] \<or> is_space (last pre))
                   \<and> (post = [] \<or> is_space (hd post))))"
proof (cases "w = []")
  case True
  then show ?thesis by (simp add: query_words_def)
next
  case False
  then have "(w \<in> set (split_ws (toLowerCase q))) =
   ((\<forall>c \<in> set w. \<not> is_space c)
    \<and> (\<exists>pre post. toLowerCase q = pre @ w @ post \<and> (pre = [] \<or> is_space (last pre))
                   \<and> (post = [] \<or> is_space (hd post))))"
    by (rule split_ws_pieces)
  moreover have "(w \<in> set (query_words q)) = (2 < length w \<and> w \<in> set (split_ws (toLowerCase q)))"
    by (auto simp: query_words_def)
  ultimately show ?thesis by (simp only:)
qed

subsection \<open>The test vector and a long query\<close>

lemma bug_words: "query_words ''bug'' = [''bug'']"
  by (simp add: query_words_def split_ws.simps is_space_def toLowerCase_def lower_char_def)

lemma bug_search:
  "keyword_search (truncateText ''bug'' 500) candidates 5
   = [\<lparr>text = ''fix the bug'', embedding = None\<rparr>]"
  using bug_words
  by (simp add: keyword_search_def query_words_def truncateText_def candidates_def)
     (simp add: toLowerCase_def lower_char_def)

lemma long_query_capped: "truncateText long_query 500 = replicate 499 CHR '' '' @ ''b...''"
  by (simp add: truncateText_def long_query_def)

lemma space_is_space: "is_space CHR '' ''"
  by (simp add: is_space_def)

lemma drop_spaces: "dropWhile is_space (replicate n CHR '' '' @ ys) = dropWhile is_space ys"
  by (induction n) (simp_all add: space_is_space)

lemma split_leading_spaces:
  "split_ws (replicate (Suc n) CHR '' '' @ ys) = [] # split_ws (dropWhile is_space ys)"
  using drop_spaces [of "Suc n" ys]
  by (subst split_ws.simps) (simp add: space_is_space)

lemma lower_space: "lower_char CHR '' '' = CHR '' ''"
  by (simp add: lower_char_def)

lemma capped_words: "query_words (replicate 499 CHR '' '' @ ''b...'') = [''b...'']"
proof -
  have "toLowerCase (replicate 499 CHR '' '' @ ''b...'') = replicate (Suc 498) CHR '' '' @ ''b...''"
    by (simp add: toLowerCase_def lower_space) (simp add: lower_char_def)
  moreover have "split_ws (replicate (Suc 498) CHR '' '' @ ''b...'') = ['''', ''b...'']"
    using split_leading_spaces [of 498 "''b...''"]
    by (simp add: split_ws.simps [of "''b...''"] is_space_def)
  ultimately show ?thesis by (simp add: query_words_def)
qed

lemma uncapped_words: "query_words long_query = [''bug'']"
proof -
  have "toLowerCase long_query = replicate (Suc 498) CHR '' '' @ ''bug''"
    by (simp add: toLowerCase_def lower_space long_query_def) (simp add: lower_char_def)
  moreover have "split_ws (replicate (Suc 498) CHR '' '' @ ''bug'') = ['''', ''bug'']"
    using split_leading_spaces [of 498 "''bug''"]
    by (simp add: split_ws.simps [of "''bug''"] is_space_def)
  ultimately show ?thesis by (simp add: query_words_def)
qed

lemma lower_fix: "toLowerCase ''fix the bug'' = ''fix the bug''"
  by (simp add: toLowerCase_def lower_char_def)

text \<open>
  C7, the claim as stated fails. The query is 499 spaces followed by \<open>bug\<close>, the only
  candidate is \<open>fix the bug\<close> and no credential is set. The words of the query are the
  one word \<open>bug\<close>, a substring of the candidate, so the path of the claim returns the
  candidate. The code searches for the words of the capped query, whose one word is
  \<open>b...\<close>, and returns nothing.
\<close>

theorem keyword_search_long_query_counterexample:
  "fst (semanticSearch no_keys dead_transport long_query
          [\<lparr>text = ''fix the bug'', embedding = None\<rparr>] 5 idle) = Inr []
   \<and> query_words long_query = [''bug'']
   \<and> js_includes (toLowerCase ''fix the bug'') ''bug''"
proof -
  have "keyword_search (truncateText long_query 500) [\<lparr>text = ''fix the bug'', embedding = None\<rparr>] 5 = []"
    using capped_words
    by (simp add: keyword_search_def query_words_def long_query_capped lower_fix)
  then have "fst (semanticSearch no_keys dead_transport long_query
          [\<lparr>text = ''fix the bug'', embedding = None\<rparr>] 5 idle) = Inr []"
    by (simp add: semanticSearch_no_keys no_keys_def truthy_def)
  then show ?thesis
    using uncapped_words by (simp add: lower_fix)
qed

text \<open>
  C7, amended. The keyword path works on the query as capped by \<open>truncateText\<close> at 500
  characters: the query itself up to that length, its first 500 characters followed by
  the marker beyond. It lowercases the capped query, splits it on white space and keeps
  the pieces longer than 2: the words are the blocks of more than two characters
  without white space that have the start of the lowercased query or white space before
  them and its end or white space after them. An item matches when one of these words is a substring of
  its lowercased text, and every item matches when there is no such word. The result is
  the first \<open>limit\<close> matches in the order of the candidates. \<open>semanticSearch\<close> always
  resolves, and without credentials it is the keyword path and sends nothing. For the
  candidates \<open>buy milk\<close>, \<open>call mom\<close> and \<open>fix the bug\<close> and the query \<open>bug\<close> the
  result is exactly \<open>fix the bug\<close>.
\<close>

theorem keyword_search_spec:
  "keyword_search (truncateText query 500) items limit
     = take limit
         (filter (\<lambda>it. query_words (truncateText query 500) = []
                    \<or> (\<exists>w \<in> set (query_words (truncateText query 500)).
                          \<exists>pre post. toLowerCase (text it) = pre @ w @ post))
            items)
   \<and> (w \<in> set (query_words (truncateText query 500)))
       = (2 < length w \<and> (\<forall>c \<in> set w. \<not> is_space c)
          \<and> (\<exists>pre post. toLowerCase (truncateText query 500) = pre @ w @ post
                \<and> (pre = [] \<or> is_space (last pre)) \<and> (post = [] \<or> is_space (hd post))))
   \<and> length (keyword_search (truncateText query 500) items limit) \<le> limit
   \<and> subseq (keyword_search (truncateText query 500) items limit) items
   \<and> (length query \<le> 500 \<longrightarrow> truncateText query 500 = query)
   \<and> (500 < length query \<longrightarrow> truncateText query 500 = take 500 query @ ''...'')
   \<and> (\<exists>results s'. semanticSearch svc tr query items limit s = (Inr results, s'))
   \<and> (\<not> truthy (openaiApiKey svc) \<and> \<not> truthy (groqApiKey svc)
        \<longrightarrow> semanticSearch svc tr query items limit s
            = (Inr (keyword_search (truncateText query 500) items limit), s))
   \<and> keyword_search (truncateText ''bug'' 500) candidates 5
       = [\<lparr>text = ''fix the bug'', embedding = None\<rparr>]"
proof -
  have "length query \<le> 500 \<longrightarrow> truncateText query 500 = query"
    and "500 < length query \<longrightarrow> truncateText query 500 = take 500 query @ ''...''"
    by (auto simp: truncateText_def)
  moreover have "\<exists>results s'. semanticSearch svc tr query items limit s = (Inr results, s')"
    using semanticSearch_sources [of svc tr query items limit s] by blast
  ultimately show ?thesis
    using keyword_search_eq [of "truncateText query 500" items limit]
      query_words_iff [of w "truncateText query 500"]
      keyword_search_length [of "truncateText query 500" items limit]
      keyword_search_subseq [of "truncateText query 500" items limit]
      semanticSearch_no_keys [of svc tr query items limit s] bug_search
    by blast
qed

theorem keyword_search_spec_witness:
  "length ''bug'' \<le> 500 \<and> truncateText ''bug'' 500 = ''bug''
   \<and> 500 < length long_query
   \<and> truncateText long_query 500 = replicate 499 CHR '' '' @ ''b...''
   \<and> \<not> truthy (openaiApiKey no_keys) \<and> \<not> truthy (groqApiKey no_keys)
   \<and> semanticSearch no_keys dead_transport ''bug'' candidates 5 idle
       = (Inr [\<lparr>text = ''fix the bug'', embedding = None\<rparr>], idle)"
proof -
  have k: "\<not> truthy (openaiApiKey no_keys) \<and> \<not> truthy (groqApiKey no_keys)"
    by (simp add: no_keys_def truthy_def)
  have l: "500 < length long_query" by (simp add: long_query_def)
  have b: "length ''bug'' \<le> 500" by simp
  note short = keyword_search_spec [where query = "''bug''" and items = candidates and limit = 5
      and svc = no_keys and tr = dead_transport and s = idle]
  from short b have t: "truncateText ''bug'' 500 = ''bug''" by blast
  from short k have
    "semanticSearch no_keys dead_transport ''bug'' candidates 5 idle
       = (Inr (keyword_search (truncateText ''bug'' 500) candidates 5), idle)"
    by blast
  moreover from short have
    "keyword_search (truncateText ''bug'' 500) candidates 5
       = [\<lparr>text = ''fix the bug'', embedding = None\<rparr>]"
    by blast
  ultimately have s: "semanticSearch no_keys dead_transport ''bug'' candidates 5 idle
       = (Inr [\<lparr>text = ''fix the bug'', embedding = None\<rparr>], idle)"
    by (simp only:)
  from keyword_search_spec [of long_query] l
  have "truncateText long_query 500 = take 500 long_query @ ''...''" by blast
  then have c: "truncateText long_query 500 = replicate 499 CHR '' '' @ ''b...''"
    by (simp add: long_query_def)
  from b t l c k s show ?thesis by (intro conjI) simp_all
qed

subsection \<open>The cap on the candidates\<close>

text \<open>
  C10. The embedding path and the ranking path return items of the first
  \<open>MAX_SEARCH_ITEMS\<close>, that is 10, candidates only: every item they return stands at an
  index below 10, and among distinct candidates none of those at index 10 or beyond is
  returned. The result of \<open>semanticSearch\<close> comes from such a path or is the keyword
  search over the whole list. The keyword search is not capped: with the empty query and
  a limit of the length of the list it returns the whole list, so for a list longer than
  10 its result is longer than 10 and holds, at index 10, the candidate of index 10;
  without credentials this is the result of \<open>semanticSearch\<close>.
\<close>

theorem semanticSearch_keyword_path_uncapped:
  "MAX_SEARCH_ITEMS = 10
   \<and> (fst (embedding_search svc tr q (take MAX_SEARCH_ITEMS items) limit s) = Some results
        \<longrightarrow> (\<forall>r \<in> set results. \<exists>i < MAX_SEARCH_ITEMS. i < length items \<and> r = items ! i)
            \<and> (distinct items \<longrightarrow>
                 (\<forall>j. MAX_SEARCH_ITEMS \<le> j \<and> j < length items \<longrightarrow> items ! j \<notin> set results)))
   \<and> (fst (ranking_search svc tr q (take MAX_SEARCH_ITEMS items) limit s) = Some results
        \<longrightarrow> (\<forall>r \<in> set results. \<exists>i < MAX_SEARCH_ITEMS. i < length items \<and> r = items ! i)
            \<and> (distinct items \<longrightarrow>
                 (\<forall>j. MAX_SEARCH_ITEMS \<le> j \<and> j < length items \<longrightarrow> items ! j \<notin> set results)))
   \<and> (\<exists>found s'. semanticSearch svc tr query items limit s = (Inr found, s')
          \<and> ((\<forall>r \<in> set found. \<exists>i < MAX_SEARCH_ITEMS. i < length items \<and> r = items ! i)
             \<or> found = keyword_search (truncateText query 500) items limit))
   \<and> keyword_search (truncateText [] 500) items (length items) = items
   \<and> (MAX_SEARCH_ITEMS < length items
        \<longrightarrow> MAX_SEARCH_ITEMS < length (keyword_search (truncateText [] 500) items (length items))
            \<and> keyword_search (truncateText [] 500) items (length items) ! MAX_SEARCH_ITEMS
                = items ! MAX_SEARCH_ITEMS)
   \<and> (\<not> truthy (openaiApiKey svc) \<and> \<not> truthy (groqApiKey svc)
        \<longrightarrow> semanticSearch svc tr [] items (length items) s = (Inr items, s))"
proof -
  have all: "keyword_search (truncateText [] 500) items (length items) = items"
    by (simp add: truncateText_def keyword_search_empty_query)
  have e: "fst (embedding_search svc tr q (take MAX_SEARCH_ITEMS items) limit s) = Some results
        \<longrightarrow> (\<forall>r \<in> set results. \<exists>i < MAX_SEARCH_ITEMS. i < length items \<and> r = items ! i)
            \<and> (distinct items \<longrightarrow>
                 (\<forall>j. MAX_SEARCH_ITEMS \<le> j \<and> j < length items \<longrightarrow> items ! j \<notin> set results))"
    using embedding_search_within [of svc tr q "take MAX_SEARCH_ITEMS items" limit s results]
      capped_results [of results items] by blast
  have r: "fst (ranking_search svc tr q (take MAX_SEARCH_ITEMS items) limit s) = Some results
        \<longrightarrow> (\<forall>r \<in> set results. \<exists>i < MAX_SEARCH_ITEMS. i < length items \<and> r = items ! i)
            \<and> (distinct items \<longrightarrow>
                 (\<forall>j. MAX_SEARCH_ITEMS \<le> j \<and> j < length items \<longrightarrow> items ! j \<notin> set results))"
    using ranking_search_within [of svc tr q "take MAX_SEARCH_ITEMS items" limit s results]
      capped_results [of results items] by blast
  have n: "\<not> truthy (openaiApiKey svc) \<and> \<not> truthy (groqApiKey svc)
        \<longrightarrow> semanticSearch svc tr [] items (length items) s = (Inr items, s)"
    using semanticSearch_no_keys [of svc tr "[]" items "length items" s] all by simp
  show ?thesis
    using e r n all semanticSearch_sources [of svc tr query items limit s]
    by (simp add: MAX_SEARCH_ITEMS_def)
qed

lemma eleven_distinct: "distinct eleven"
  by (simp add: eleven_def)

lemma eleven_head:
  "take MAX_SEARCH_ITEMS eleven = map (\<lambda>c. \<lparr>text = [c], embedding = Some [Num 1, Num 0]\<rparr>) ''abcdefghij''"
  by (simp add: eleven_def MAX_SEARCH_ITEMS_def)

lemma unit_cosine: "cosineSimilarity (Some [Num 1, Num 0]) (Some [Num 1, Num 0]) = Num 1"
  by (simp add: cosineSimilarity_def cosine_sums_def upt_rec numeral_2_eq_2)

lemma eleven_embedding_search:
  "fst (embedding_search both_keys embedding_transport ''x'' (take MAX_SEARCH_ITEMS eleven) 2 idle)
   = Some [\<lparr>text = ''a'', embedding = Some [Num 1, Num 0]\<rparr>, \<lparr>text = ''b'', embedding = Some [Num 1, Num 0]\<rparr>]"
  by (simp add: eleven_head embedding_search_def generateEmbedding_def makeRequest.simps Let_def
      both_keys_def truthy_def embedding_transport_def idle_def truncateText_def has_embedding_def
      unit_cosine sort_by_similarity_def js_minus_def js_positive_def)

lemma ranking_answer: "digit_runs ''11, 2'' = [''11'', ''2'']"
  by (simp add: digit_runs.simps is_digit_def)

lemma eleven_ranking_search:
  "fst (ranking_search fast_only ranking_transport ''x'' (take MAX_SEARCH_ITEMS eleven) 5 idle)
   = Some [\<lparr>text = ''b'', embedding = Some [Num 1, Num 0]\<rparr>]"
  by (simp add: eleven_head ranking_search_def chatCompletion.simps [of _ _ _ _ "''groq''"]
      chat_attempt_def chat_content_def makeRequest.simps Let_def
      fast_only_def truthy_def ranking_transport_def idle_def truncateText_def isTextTooLarge_def
      MAX_SEARCH_ITEM_LENGTH_def search_prompt_def estimateTokens_def estimatedTokens_def or_else_def
      show_nat.simps char_eval ranking_answer dec_val_def digit_val_def enumerate_eq_zip upt_rec)

theorem semanticSearch_keyword_path_uncapped_witness:
  "fst (embedding_search both_keys embedding_transport ''x'' (take MAX_SEARCH_ITEMS eleven) 2 idle)
     = Some [\<lparr>text = ''a'', embedding = Some [Num 1, Num 0]\<rparr>, \<lparr>text = ''b'', embedding = Some [Num 1, Num 0]\<rparr>]
   \<and> fst (ranking_search fast_only ranking_transport ''x'' (take MAX_SEARCH_ITEMS eleven) 5 idle)
     = Some [\<lparr>text = ''b'', embedding = Some [Num 1, Num 0]\<rparr>]
   \<and> distinct eleven \<and> MAX_SEARCH_ITEMS < length eleven
   \<and> eleven ! 10 \<notin> set [\<lparr>text = ''a'', embedding = Some [Num 1, Num 0]\<rparr>, \<lparr>text = ''b'', embedding = Some [Num 1, Num 0]\<rparr>]
   \<and> eleven ! 10 \<notin> set [\<lparr>text = ''b'', embedding = Some [Num 1, Num 0]\<rparr>]
   \<and> \<not> truthy (openaiApiKey no_keys) \<and> \<not> truthy (groqApiKey no_keys)
   \<and> semanticSearch no_keys dead_transport [] eleven (length eleven) idle = (Inr eleven, idle)
   \<and> keyword_search (truncateText [] 500) eleven (length eleven) ! 10 = \<lparr>text = ''k'', embedding = Some [Num 1, Num 0]\<rparr>"
proof -
  have k: "\<not> truthy (openaiApiKey no_keys) \<and> \<not> truthy (groqApiKey no_keys)"
    by (simp add: no_keys_def truthy_def)
  have l: "MAX_SEARCH_ITEMS < length eleven" and t: "MAX_SEARCH_ITEMS \<le> 10 \<and> 10 < length eleven"
    by (simp_all add: MAX_SEARCH_ITEMS_def eleven_def)
  have last: "eleven ! 10 = \<lparr>text = ''k'', embedding = Some [Num 1, Num 0]\<rparr>"
    by (simp add: eleven_def)
  from semanticSearch_keyword_path_uncapped [of both_keys embedding_transport "''x''" eleven 2 idle
      "[\<lparr>text = ''a'', embedding = Some [Num 1, Num 0]\<rparr>, \<lparr>text = ''b'', embedding = Some [Num 1, Num 0]\<rparr>]"]
    eleven_embedding_search eleven_distinct t
  have "eleven ! 10 \<notin> set [\<lparr>text = ''a'', embedding = Some [Num 1, Num 0]\<rparr>, \<lparr>text = ''b'', embedding = Some [Num 1, Num 0]\<rparr>]"
    by blast
  moreover from semanticSearch_keyword_path_uncapped [of fast_only ranking_transport "''x''" eleven 5 idle
      "[\<lparr>text = ''b'', embedding = Some [Num 1, Num 0]\<rparr>]"]
    eleven_ranking_search eleven_distinct t
  have "eleven ! 10 \<notin> set [\<lparr>text = ''b'', embedding = Some [Num 1, Num 0]\<rparr>]"
    by blast
  moreover from semanticSearch_keyword_path_uncapped [of no_keys dead_transport _ eleven _ idle] k l
  have "semanticSearch no_keys dead_transport [] eleven (length eleven) idle = (Inr eleven, idle)"
    and "keyword_search (truncateText [] 500) eleven (length eleven) ! 10 = eleven ! 10"
    by (simp_all add: MAX_SEARCH_ITEMS_def)
  ultimately show ?thesis
    using eleven_embedding_search eleven_ranking_search eleven_distinct k l last by simp
qed

end
